theory Spec2Isabelle
  imports Complex_Main "HOL-Library.Product_Lexorder" "HOL-Library.Multiset"
    "HOL-Library.Log_Nat"
begin

section \<open>Data model of the Model Selector\<close>

text \<open>
  The catalog (\<^verbatim>\<open>models.json\<close>) lists, per category, subcategory and tier, the model
  records. A JavaScript number is a double; the model has its exact value, a rational (NaN
  and the infinities are outside the model). A field that may be missing is an \<open>option\<close>,
  an array a list.
  Only the fields the selector reads are kept: \<^verbatim>\<open>sizeMB\<close>, which every catalog record
  has, and \<^verbatim>\<open>accuracy\<close> and \<^verbatim>\<open>deploymentOptions\<close>, which a record may lack. The
  field \<^verbatim>\<open>id\<close> is called \<open>modelId\<close> since \<open>id\<close> is the identity function of HOL.
\<close>

datatype tier = lightweight | standard | advanced | xlarge

record catalog_model =
  modelId :: string
  sizeMB :: rat
  accuracy :: "rat option"
  deploymentOptions :: "string list option"

text \<open>
  A model as the selector hands it out: the catalog record spread into a new object
  together with \<^verbatim>\<open>tier\<close>, \<^verbatim>\<open>category\<close>, \<^verbatim>\<open>subcategory\<close> and, in
  \<^verbatim>\<open>getTaskModels\<close> only, \<^verbatim>\<open>tierPriority\<close>.
\<close>

record model = catalog_model +
  tier :: tier
  tierPriority :: "nat option"
  category :: string
  subcategory :: string

record 'a filter_result =
  filtered :: "'a list"
  total :: nat
  hidden :: nat

record tier_group =
  models :: "model list"
  hidden_count :: nat

record grouped_result =
  tiers :: "tier \<rightharpoonup> tier_group"
  totalHidden :: nat
  totalShown :: nat

text \<open>
  \<^verbatim>\<open>modelsData.models\<close>: category, then subcategory, then tier. A missing key is
  \<open>None\<close>, which is what \<^verbatim>\<open>?.\<close> and \<^verbatim>\<open>|| []\<close> test for.
\<close>

type_synonym task_data = "tier \<rightharpoonup> catalog_model list"
type_synonym catalog = "string \<rightharpoonup> (string \<rightharpoonup> task_data)"

text \<open>A thrown value: the TypeError of a call of something that is no function, or any
  other exception (a classifier's rejection), with its message.\<close>

datatype js_error = TypeError | Exception string

text \<open>
  Modelled from the spec: the constant \<^verbatim>\<open>TIERS\<close> of \<^verbatim>\<open>src/lib/data/constants.js\<close>,
  which is imported by \<^verbatim>\<open>ModelSelector.js\<close> and is not among the sources. The spec
  gives the tier enumeration and its priority order: lightweight, standard, advanced, xlarge.
\<close>

definition TIERS :: "tier list" where
  "TIERS = [lightweight, standard, advanced, xlarge]"

section \<open>JavaScript numbers\<close>

text \<open>
  Comparing two doubles is exact, arithmetic on them is not: the result is the double
  nearest to the exact result, a tie going to the one with the even significand. For a
  magnitude \<open>a\<close> with \<open>2 ^ e \<le> a < 2 ^ (e + 1)\<close> the doubles around it are the multiples of
  \<open>2 ^ (e - 52)\<close>; below \<open>2 ^ -1022\<close> they are the multiples of \<open>2 ^ -1074\<close>. (A magnitude
  that rounds to \<open>2 ^ 1024\<close> or more becomes an infinity; no operation below produces one
  from doubles.)
\<close>

definition roundHalfEven :: "rat \<Rightarrow> int" where
  "roundHalfEven q =
     (let f = \<lfloor>q\<rfloor>; r = q - of_int f
      in if r < 1 / 2 then f else if 1 / 2 < r then f + 1 else if even f then f else f + 1)"

text \<open>The exponent \<open>e\<close> of a positive number, from the bit lengths of its numerator and
  denominator.\<close>

definition binaryExponent :: "rat \<Rightarrow> int" where
  "binaryExponent x =
     (case quotient_of x of
        (p, q) \<Rightarrow>
          let d = bitlen p - bitlen q
          in if power_int 2 d \<le> x then d else d - 1)"

definition toDouble :: "rat \<Rightarrow> rat" where
  "toDouble x =
     (if x = 0 then 0
      else
        let a = \<bar>x\<bar>;
            e = max (binaryExponent a) (- 1022);
            ulp = power_int 2 (e - 52)
        in sgn x * (of_int (roundHalfEven (a / ulp)) * ulp))"

text \<open>The operator \<^verbatim>\<open>/\<close> on two doubles (the divisor not 0), and the double that a
  decimal literal such as \<^verbatim>\<open>0.77\<close> (digits 77, two places) denotes.\<close>

definition jsDivide :: "rat \<Rightarrow> rat \<Rightarrow> rat" where
  "jsDivide a b = toDouble (a / b)"

definition decimal :: "int \<Rightarrow> nat \<Rightarrow> rat" where
  "decimal digits places = toDouble (of_int digits / 10 ^ places)"

text \<open>The smallest normal double: a quotient at least this large is rounded with a
  relative error of at most \<open>2 ^ -53\<close>.\<close>

definition minNormal :: rat where
  "minNormal = power_int 2 (- 1022)"

text \<open>Half of the smallest positive double: a positive number above it does not round
  to 0.\<close>

definition underflowBound :: rat where
  "underflowBound = power_int 2 (- 1075)"

section \<open>The filters\<close>

text \<open>
  \<^verbatim>\<open>filterByAccuracy(models, threshold = 0)\<close>: \<^verbatim>\<open>threshold === 0\<close> returns the
  array itself; otherwise \<^verbatim>\<open>(model.accuracy ?? 0) >= threshold / 100\<close> is the test, the
  quotient being the rounded one.
\<close>

definition accuracyOrZero :: "'a catalog_model_scheme \<Rightarrow> rat" where
  "accuracyOrZero m = (case accuracy m of None \<Rightarrow> 0 | Some a \<Rightarrow> a)"

definition filterByAccuracy ::
  "'a catalog_model_scheme list \<Rightarrow> rat \<Rightarrow> 'a catalog_model_scheme filter_result" where
  "filterByAccuracy ms threshold =
     (if threshold = 0 then \<lparr>filtered = ms, total = length ms, hidden = 0\<rparr>
      else
        let thresholdDecimal = jsDivide threshold 100;
            kept = filter (\<lambda>m. accuracyOrZero m \<ge> thresholdDecimal) ms
        in \<lparr>filtered = kept, total = length ms, hidden = length ms - length kept\<rparr>)"

text \<open>
  \<^verbatim>\<open>filterByDeployment(models, deploymentTarget = null)\<close>. The target is a string or
  null; \<^verbatim>\<open>!deploymentTarget\<close> holds for null and for the empty string. The table
  \<^verbatim>\<open>targetMatches\<close> is an object literal, so besides its three own keys a lookup also
  finds the properties every object inherits from \<^verbatim>\<open>Object.prototype\<close>: for such a
  target \<^verbatim>\<open>allowed\<close> is a function (or the prototype object), it has no
  \<^verbatim>\<open>includes\<close>, and the first call of the \<^verbatim>\<open>some\<close> callback raises a TypeError.
\<close>

definition targetMatches :: "string \<rightharpoonup> string list" where
  "targetMatches t =
     (if t = ''browser'' then Some [''browser'']
      else if t = ''edge'' then Some [''browser'', ''edge'', ''mobile'']
      else if t = ''cloud'' then Some [''cloud'', ''server'', ''edge'', ''browser'', ''mobile'']
      else None)"

definition inheritedKeys :: "string list" where
  "inheritedKeys =
     [''constructor'', ''hasOwnProperty'', ''isPrototypeOf'', ''propertyIsEnumerable'',
      ''toLocaleString'', ''toString'', ''valueOf'', ''__proto__'',
      ''__defineGetter__'', ''__defineSetter__'', ''__lookupGetter__'', ''__lookupSetter__'']"

datatype allowed = AllowedList "string list" | NotAnArray

definition allowedFor :: "string \<Rightarrow> allowed" where
  "allowedFor t =
     (case targetMatches t of
        Some l \<Rightarrow> AllowedList l
      | None \<Rightarrow> if t \<in> set inheritedKeys then NotAnArray else AllowedList [t])"

text \<open>\<^verbatim>\<open>opts.some(opt => allowed.includes(opt))\<close>: the callback runs from the first
  element on and stops at the first hit.\<close>

fun someIncluded :: "allowed \<Rightarrow> string list \<Rightarrow> js_error + bool" where
  "someIncluded a [] = Inr False"
| "someIncluded NotAnArray (opt # opts) = Inl TypeError"
| "someIncluded (AllowedList l) (opt # opts) =
     (if opt \<in> set l then Inr True else someIncluded (AllowedList l) opts)"

definition optionsOrEmpty :: "'a catalog_model_scheme \<Rightarrow> string list" where
  "optionsOrEmpty m = (case deploymentOptions m of None \<Rightarrow> [] | Some opts \<Rightarrow> opts)"

text \<open>\<^verbatim>\<open>Array.prototype.filter\<close> with a callback that may throw: the first exception
  ends the call.\<close>

fun filterThrowing :: "('a \<Rightarrow> js_error + bool) \<Rightarrow> 'a list \<Rightarrow> js_error + 'a list" where
  "filterThrowing p [] = Inr []"
| "filterThrowing p (x # xs) =
     (case p x of
        Inl e \<Rightarrow> Inl e
      | Inr b \<Rightarrow>
          (case filterThrowing p xs of
             Inl e \<Rightarrow> Inl e
           | Inr r \<Rightarrow> Inr (if b then x # r else r)))"

definition filterByDeployment ::
  "'a catalog_model_scheme list \<Rightarrow> string option
     \<Rightarrow> js_error + 'a catalog_model_scheme filter_result" where
  "filterByDeployment ms deploymentTarget =
     (case deploymentTarget of
        None \<Rightarrow> Inr \<lparr>filtered = ms, total = length ms, hidden = 0\<rparr>
      | Some t \<Rightarrow>
          if t = [] then Inr \<lparr>filtered = ms, total = length ms, hidden = 0\<rparr>
          else
            (case filterThrowing (\<lambda>m. someIncluded (allowedFor t) (optionsOrEmpty m)) ms of
               Inl e \<Rightarrow> Inl e
             | Inr kept \<Rightarrow>
                 Inr \<lparr>filtered = kept, total = length ms, hidden = length ms - length kept\<rparr>))"

section \<open>Ranking\<close>

text \<open>
  \<^verbatim>\<open>rankBySize(models)\<close> is \<^verbatim>\<open>models.sort((a, b) => a.tierPriority - b.tierPriority
  || a.sizeMB - b.sizeMB)\<close>. The difference of the priorities is NaN when either is
  missing; NaN and 0 are falsy, so \<^verbatim>\<open>||\<close> then yields the difference of the sizes. The
  sort reads only the sign of the comparator's result, and the rounded difference of two
  doubles has the sign of the exact difference, which the model takes.
\<close>

definition tierPriorityDiff :: "'a model_scheme \<Rightarrow> 'a model_scheme \<Rightarrow> rat option" where
  "tierPriorityDiff a b =
     (case (tierPriority a, tierPriority b) of
        (Some p, Some q) \<Rightarrow> Some (of_nat p - of_nat q)
      | _ \<Rightarrow> None)"

definition compareModels :: "'a model_scheme \<Rightarrow> 'a model_scheme \<Rightarrow> rat" where
  "compareModels a b =
     (case tierPriorityDiff a b of
        Some d \<Rightarrow> if d \<noteq> 0 then d else sizeMB a - sizeMB b
      | None \<Rightarrow> sizeMB a - sizeMB b)"

text \<open>
  \<^verbatim>\<open>Array.prototype.sort\<close> is stable (ECMAScript 2019): with a consistent comparator
  the result is the one sorted arrangement that keeps equal elements in their input
  order, which a stable insertion sort computes. (For a comparator that is not
  consistent ECMAScript leaves the order to the implementation; the model then still
  runs the insertion sort.) The sort is in place and returns the array; the model
  returns the sorted list.
\<close>

fun insertSorted :: "('a \<Rightarrow> 'a \<Rightarrow> rat) \<Rightarrow> 'a \<Rightarrow> 'a list \<Rightarrow> 'a list" where
  "insertSorted cmp x [] = [x]"
| "insertSorted cmp x (y # ys) =
     (if cmp x y \<le> 0 then x # y # ys else y # insertSorted cmp x ys)"

fun arraySort :: "('a \<Rightarrow> 'a \<Rightarrow> rat) \<Rightarrow> 'a list \<Rightarrow> 'a list" where
  "arraySort cmp [] = []"
| "arraySort cmp (x # xs) = insertSorted cmp x (arraySort cmp xs)"

definition rankBySize :: "'a model_scheme list \<Rightarrow> 'a model_scheme list" where
  "rankBySize ms = arraySort compareModels ms"

section \<open>Catalog access\<close>

text \<open>\<^verbatim>\<open>this.modelsData.models[category]?.[subcategory]\<close>\<close>

definition taskDataFor :: "catalog \<Rightarrow> string \<Rightarrow> string \<Rightarrow> task_data option" where
  "taskDataFor modelsData c s =
     (case modelsData c of None \<Rightarrow> None | Some subs \<Rightarrow> subs s)"

text \<open>\<^verbatim>\<open>taskData[tier] || []\<close>\<close>

definition tierList :: "task_data \<Rightarrow> tier \<Rightarrow> catalog_model list" where
  "tierList taskData t = (case taskData t of None \<Rightarrow> [] | Some l \<Rightarrow> l)"

text \<open>The object spread \<^verbatim>\<open>{...model, tier, tierPriority: index, category, subcategory}\<close>;
  without \<^verbatim>\<open>tierPriority\<close> in \<^verbatim>\<open>getTaskModelsGroupedByTier\<close>.\<close>

definition spreadModel ::
  "catalog_model \<Rightarrow> tier \<Rightarrow> nat option \<Rightarrow> string \<Rightarrow> string \<Rightarrow> model" where
  "spreadModel m t prio c s =
     \<lparr>modelId = modelId m, sizeMB = sizeMB m, accuracy = accuracy m,
      deploymentOptions = deploymentOptions m,
      tier = t, tierPriority = prio, category = c, subcategory = s\<rparr>"

text \<open>\<^verbatim>\<open>getTaskModels\<close>: \<^verbatim>\<open>TIERS.flatMap((tier, index) => ...)\<close>\<close>

definition getTaskModels :: "catalog \<Rightarrow> string \<Rightarrow> string \<Rightarrow> model list" where
  "getTaskModels modelsData c s =
     (case taskDataFor modelsData c s of
        None \<Rightarrow> []
      | Some taskData \<Rightarrow>
          concat (map (\<lambda>(index, t). map (\<lambda>m. spreadModel m t (Some index) c s) (tierList taskData t))
                      (enumerate 0 TIERS)))"

text \<open>\<^verbatim>\<open>selectModels(category, subcategory, maxResults = 3)\<close>\<close>

definition selectModels :: "catalog \<Rightarrow> string \<Rightarrow> string \<Rightarrow> nat \<Rightarrow> model list" where
  "selectModels modelsData c s maxResults =
     take maxResults (rankBySize (getTaskModels modelsData c s))"

section \<open>Grouping by tier\<close>

text \<open>
  \<^verbatim>\<open>getTaskModelsGroupedByTier\<close>. The result object starts with the two totals and the
  \<^verbatim>\<open>TIERS.forEach\<close> callback stores one entry per tier (its \<^verbatim>\<open>hidden\<close> field is
  \<open>hidden_count\<close> here) and adds to the totals. An exception of the deployment filter
  leaves the loop and the function.
\<close>

definition emptyGroup :: tier_group where
  "emptyGroup = \<lparr>models = [], hidden_count = 0\<rparr>"

definition emptyGrouped :: grouped_result where
  "emptyGrouped =
     \<lparr>tiers = [lightweight \<mapsto> emptyGroup, standard \<mapsto> emptyGroup,
               advanced \<mapsto> emptyGroup, xlarge \<mapsto> emptyGroup],
      totalHidden = 0, totalShown = 0\<rparr>"

definition tierModels :: "task_data \<Rightarrow> string \<Rightarrow> string \<Rightarrow> tier \<Rightarrow> model list" where
  "tierModels taskData c s t = map (\<lambda>m. spreadModel m t None c s) (tierList taskData t)"

definition processTier ::
  "task_data \<Rightarrow> string \<Rightarrow> string \<Rightarrow> rat \<Rightarrow> string option
     \<Rightarrow> grouped_result \<Rightarrow> tier \<Rightarrow> js_error + grouped_result" where
  "processTier taskData c s accuracyThreshold deploymentTarget result t =
     (let accuracyResult = filterByAccuracy (tierModels taskData c s t) accuracyThreshold
      in case filterByDeployment (filtered accuracyResult) deploymentTarget of
           Inl e \<Rightarrow> Inl e
         | Inr deployResult \<Rightarrow>
             Inr (result
               \<lparr>tiers := (tiers result)
                  (t \<mapsto> \<lparr>models = rankBySize (filtered deployResult),
                          hidden_count = hidden accuracyResult + hidden deployResult\<rparr>),
                totalHidden := totalHidden result + (hidden accuracyResult + hidden deployResult),
                totalShown := totalShown result + length (filtered deployResult)\<rparr>))"

fun forEachTier ::
  "(grouped_result \<Rightarrow> tier \<Rightarrow> js_error + grouped_result) \<Rightarrow> tier list
     \<Rightarrow> grouped_result \<Rightarrow> js_error + grouped_result" where
  "forEachTier f [] result = Inr result"
| "forEachTier f (t # ts) result =
     (case f result t of Inl e \<Rightarrow> Inl e | Inr result' \<Rightarrow> forEachTier f ts result')"

definition getTaskModelsGroupedByTier ::
  "catalog \<Rightarrow> string \<Rightarrow> string \<Rightarrow> rat \<Rightarrow> string option \<Rightarrow> js_error + grouped_result" where
  "getTaskModelsGroupedByTier modelsData c s accuracyThreshold deploymentTarget =
     (case taskDataFor modelsData c s of
        None \<Rightarrow> Inr emptyGrouped
      | Some taskData \<Rightarrow>
          forEachTier (processTier taskData c s accuracyThreshold deploymentTarget) TIERS
            \<lparr>tiers = Map.empty, totalHidden = 0, totalShown = 0\<rparr>)"

section \<open>The page: classifier initialisation and routing\<close>

text \<open>
  \<^verbatim>\<open>src/routes/+page.svelte\<close> holds the state that decides which classifier a
  classification call uses. The two classifiers (\<^verbatim>\<open>EmbeddingTaskClassifier\<close>,
  \<^verbatim>\<open>BrowserTaskClassifier\<close>) are not among the sources; their \<^verbatim>\<open>classify\<close>
  methods are parameters here, returning a result or throwing. Of a result the page reads
  \<^verbatim>\<open>subcategoryPredictions\<close>, \<^verbatim>\<open>predictions\<close> and \<^verbatim>\<open>confidence\<close>; of a
  prediction \<^verbatim>\<open>category\<close> and \<^verbatim>\<open>subcategory\<close> (\<open>pcategory\<close> and
  \<open>psubcategory\<close> here, the names being fields of a model already).
\<close>

record prediction =
  pcategory :: "string option"
  psubcategory :: "string option"

record classification =
  subcategoryPredictions :: "prediction list option"
  predictions :: "prediction list option"
  confidence :: "rat option"

datatype classifier = Embedding | Fallback

text \<open>The variables of the page that classification reads or writes; \<open>invoked\<close> is a
  log of the classifiers called, kept for the statements below. The variable
  \<^verbatim>\<open>error\<close> is \<open>errorMessage\<close>.\<close>

record page_state =
  usingFallback :: bool
  classifierReady :: bool
  isModelLoading :: bool
  prefillCategory :: "string option"
  prefillSubcategory :: "string option"
  prefillConfidence :: rat
  errorMessage :: "string option"
  invoked :: "classifier list"

definition initialPage :: page_state where
  "initialPage =
     \<lparr>usingFallback = False, classifierReady = False, isModelLoading = False,
      prefillCategory = None, prefillSubcategory = None, prefillConfidence = 0,
      errorMessage = None, invoked = []\<rparr>"

datatype progress_status = downloading | loading | computing | ready | error | other

text \<open>The \<^verbatim>\<open>onProgress\<close> callback handed to the embedding classifier (the progress
  message and percentage are display only and left out).\<close>

fun onProgress :: "page_state \<Rightarrow> progress_status \<Rightarrow> page_state" where
  "onProgress st downloading = st\<lparr>isModelLoading := True\<rparr>"
| "onProgress st loading = st\<lparr>isModelLoading := True\<rparr>"
| "onProgress st computing = st\<lparr>isModelLoading := True\<rparr>"
| "onProgress st ready = st\<lparr>isModelLoading := False, classifierReady := True\<rparr>"
| "onProgress st error = st\<lparr>isModelLoading := False, usingFallback := True\<rparr>"
| "onProgress st other = st"

text \<open>What \<^verbatim>\<open>await taskClassifier.initialize(tasksData)\<close> ends with, and the code of
  \<^verbatim>\<open>onMount\<close> after it: the \<^verbatim>\<open>success\<close> flag is tested, an exception is caught
  by the \<^verbatim>\<open>catch\<close> of \<^verbatim>\<open>onMount\<close>.\<close>

datatype init_outcome = InitSuccess | InitFailure | InitThrows

fun afterInitialize :: "page_state \<Rightarrow> init_outcome \<Rightarrow> page_state" where
  "afterInitialize st InitSuccess = st\<lparr>classifierReady := True, usingFallback := False\<rparr>"
| "afterInitialize st InitFailure = st\<lparr>usingFallback := True\<rparr>"
| "afterInitialize st InitThrows =
     st\<lparr>errorMessage :=
          Some ''Failed to initialize the AI model advisor. Please refresh the page.''\<rparr>"

text \<open>\<^verbatim>\<open>result.subcategoryPredictions?.[0] || result.predictions?.[0]\<close>\<close>

definition firstOf :: "prediction list option \<Rightarrow> prediction option" where
  "firstOf ps = (case ps of Some (p # _) \<Rightarrow> Some p | _ \<Rightarrow> None)"

definition topPrediction :: "classification \<Rightarrow> prediction option" where
  "topPrediction result =
     (case firstOf (subcategoryPredictions result) of
        Some p \<Rightarrow> Some p
      | None \<Rightarrow> firstOf (predictions result))"

text \<open>A string value is truthy when it is present and not empty.\<close>

definition truthy :: "string option \<Rightarrow> bool" where
  "truthy v = (case v of None \<Rightarrow> False | Some str \<Rightarrow> str \<noteq> [])"

text \<open>\<^verbatim>\<open>x || null\<close> on a string and \<^verbatim>\<open>x || 0\<close> on a number.\<close>

definition orNull :: "string option \<Rightarrow> string option" where
  "orNull v = (if truthy v then v else None)"

definition orZero :: "rat option \<Rightarrow> rat" where
  "orZero v = (case v of None \<Rightarrow> 0 | Some x \<Rightarrow> x)"

text \<open>The body of the \<^verbatim>\<open>try\<close> block of \<^verbatim>\<open>handleClassify\<close>.\<close>

definition classifyAndPrefill ::
  "(string \<Rightarrow> js_error + classification) \<Rightarrow> (string \<Rightarrow> js_error + classification)
     \<Rightarrow> page_state \<Rightarrow> string \<Rightarrow> js_error + page_state" where
  "classifyAndPrefill taskClassifier fallbackClassifier st taskDescription =
     (let useEmbedding = (\<not> usingFallback st \<and> classifierReady st);
          st1 = st\<lparr>invoked := invoked st @ [if useEmbedding then Embedding else Fallback]\<rparr>
      in case (if useEmbedding then taskClassifier taskDescription
               else fallbackClassifier taskDescription) of
           Inl e \<Rightarrow> Inl e
         | Inr result \<Rightarrow>
             (case topPrediction result of
                None \<Rightarrow> Inr st1
              | Some p \<Rightarrow>
                  if truthy (pcategory p)
                  then Inr (st1\<lparr>prefillCategory := pcategory p,
                                prefillSubcategory := orNull (psubcategory p),
                                prefillConfidence := orZero (confidence result)\<rparr>)
                  else Inr st1))"

text \<open>\<^verbatim>\<open>handleClassify\<close>: the \<^verbatim>\<open>catch\<close> logs a warning and returns; the assignments
  of the \<^verbatim>\<open>try\<close> block come after the classifier's call, so a caught exception leaves
  the variables as they were (the log of calls apart).\<close>

definition handleClassify ::
  "(string \<Rightarrow> js_error + classification) \<Rightarrow> (string \<Rightarrow> js_error + classification)
     \<Rightarrow> page_state \<Rightarrow> string \<Rightarrow> js_error + page_state" where
  "handleClassify taskClassifier fallbackClassifier st taskDescription =
     (case classifyAndPrefill taskClassifier fallbackClassifier st taskDescription of
        Inl e \<Rightarrow>
          Inr (st\<lparr>invoked := invoked st @
                 [if \<not> usingFallback st \<and> classifierReady st then Embedding else Fallback]\<rparr>)
      | Inr st' \<Rightarrow> Inr st')"

text \<open>A session of the page: progress reports of the embedding classifier, the end of
  its initialisation, and classification requests, in the order they happen.\<close>

datatype event = Progress progress_status | InitFinished init_outcome | Classify string

fun pageStep ::
  "(string \<Rightarrow> js_error + classification) \<Rightarrow> (string \<Rightarrow> js_error + classification)
     \<Rightarrow> page_state \<Rightarrow> event \<Rightarrow> js_error + page_state" where
  "pageStep emb fb st (Progress p) = Inr (onProgress st p)"
| "pageStep emb fb st (InitFinished r) = Inr (afterInitialize st r)"
| "pageStep emb fb st (Classify d) = handleClassify emb fb st d"

fun runPage ::
  "(string \<Rightarrow> js_error + classification) \<Rightarrow> (string \<Rightarrow> js_error + classification)
     \<Rightarrow> page_state \<Rightarrow> event list \<Rightarrow> js_error + page_state" where
  "runPage emb fb st [] = Inr st"
| "runPage emb fb st (ev # evs) =
     (case pageStep emb fb st ev of Inl e \<Rightarrow> Inl e | Inr st' \<Rightarrow> runPage emb fb st' evs)"

section \<open>Notions used to state the properties\<close>

text \<open>The position of a tier in \<open>TIERS\<close>, and what \<^verbatim>\<open>getTaskModels\<close> makes true of
  a model: its \<open>tierPriority\<close> is the index its tier has in \<open>TIERS\<close>.\<close>

primrec tierRank :: "tier \<Rightarrow> nat" where
  "tierRank lightweight = 0"
| "tierRank standard = 1"
| "tierRank advanced = 2"
| "tierRank xlarge = 3"

definition taggedWithTier :: "'a model_scheme \<Rightarrow> bool" where
  "taggedWithTier m =
     (\<exists>(index, t) \<in> set (enumerate 0 TIERS). tier m = t \<and> tierPriority m = Some index)"

text \<open>The sort key the comparator amounts to when the priorities are all present or all
  missing.\<close>

definition priorityOrZero :: "'a model_scheme \<Rightarrow> nat" where
  "priorityOrZero m = (case tierPriority m of None \<Rightarrow> 0 | Some p \<Rightarrow> p)"

definition rankKey :: "'a model_scheme \<Rightarrow> nat \<times> rat" where
  "rankKey m = (priorityOrZero m, sizeMB m)"

definition uniformPriority :: "'a model_scheme list \<Rightarrow> bool" where
  "uniformPriority ms =
     ((\<forall>m \<in> set ms. tierPriority m \<noteq> None) \<or> (\<forall>m \<in> set ms. tierPriority m = None))"

text \<open>The models of one tier of a task as \<^verbatim>\<open>getTaskModelsGroupedByTier\<close> builds them,
  none when the task has no catalog entry.\<close>

definition catalogTier :: "catalog \<Rightarrow> string \<Rightarrow> string \<Rightarrow> tier \<Rightarrow> model list" where
  "catalogTier modelsData c s t =
     (case taskDataFor modelsData c s of
        None \<Rightarrow> []
      | Some taskData \<Rightarrow> tierModels taskData c s t)"

text \<open>
  The specification's description of what happens to one tier, taken alone: the accuracy
  filter, then the deployment filter on what passed, then the ranking of the survivors;
  the hidden count is the number the accuracy filter excluded plus the number the
  deployment filter excluded.
\<close>

definition tierPipeline :: "model list \<Rightarrow> rat \<Rightarrow> string option \<Rightarrow> js_error + tier_group" where
  "tierPipeline ms accuracyThreshold deploymentTarget =
     (let passedAccuracy = filtered (filterByAccuracy ms accuracyThreshold)
      in case filterByDeployment passedAccuracy deploymentTarget of
           Inl e \<Rightarrow> Inl e
         | Inr deployResult \<Rightarrow>
             Inr \<lparr>models = rankBySize (filtered deployResult),
                  hidden_count = (length ms - length passedAccuracy)
                               + (length passedAccuracy - length (filtered deployResult))\<rparr>)"

definition shownIn :: "grouped_result \<Rightarrow> tier \<Rightarrow> nat" where
  "shownIn r t = (case tiers r t of None \<Rightarrow> 0 | Some g \<Rightarrow> length (models g))"

definition hiddenIn :: "grouped_result \<Rightarrow> tier \<Rightarrow> nat" where
  "hiddenIn r t = (case tiers r t of None \<Rightarrow> 0 | Some g \<Rightarrow> hidden_count g)"

fun isClassify :: "event \<Rightarrow> bool" where
  "isClassify (Classify d) = True"
| "isClassify ev = False"

section \<open>Fixtures\<close>

text \<open>The mock catalog of \<^verbatim>\<open>tests/deployment-filter.test.js\<close>.\<close>

definition browserModel :: catalog_model where
  "browserModel = \<lparr>modelId = ''browser-model'', sizeMB = 20, accuracy = Some (decimal 77 2),
     deploymentOptions = Some [''browser'', ''mobile'']\<rparr>"

definition edgeModel :: catalog_model where
  "edgeModel = \<lparr>modelId = ''edge-model'', sizeMB = 50, accuracy = Some (decimal 85 2),
     deploymentOptions = Some [''edge'', ''cloud'']\<rparr>"

definition cloudOnly :: catalog_model where
  "cloudOnly = \<lparr>modelId = ''cloud-only'', sizeMB = 100, accuracy = Some (decimal 90 2),
     deploymentOptions = Some [''cloud'', ''server'']\<rparr>"

definition standardBrowser :: catalog_model where
  "standardBrowser = \<lparr>modelId = ''standard-browser'', sizeMB = 300, accuracy = Some (decimal 88 2),
     deploymentOptions = Some [''browser'']\<rparr>"

definition standardCloud :: catalog_model where
  "standardCloud = \<lparr>modelId = ''standard-cloud'', sizeMB = 500, accuracy = Some (decimal 92 2),
     deploymentOptions = Some [''cloud'']\<rparr>"

definition advancedServer :: catalog_model where
  "advancedServer = \<lparr>modelId = ''advanced-server'', sizeMB = 2000, accuracy = Some (decimal 95 2),
     deploymentOptions = Some [''server'']\<rparr>"

definition mockModelsData :: catalog where
  "mockModelsData =
     [''computer_vision'' \<mapsto>
        [''image_classification'' \<mapsto>
           [lightweight \<mapsto> [browserModel, edgeModel, cloudOnly],
            standard \<mapsto> [standardBrowser, standardCloud],
            advanced \<mapsto> [advancedServer]]]]"

text \<open>The two models of the scenario: one lightweight, one standard.\<close>

definition twoModelFixture :: catalog where
  "twoModelFixture =
     [''computer_vision'' \<mapsto>
        [''image_classification'' \<mapsto>
           [lightweight \<mapsto> [browserModel], standard \<mapsto> [standardBrowser]]]]"

text \<open>A model with neither accuracy nor deployment options, as the \<^verbatim>\<open>{ id: 'm2' }\<close>
  of the tests (with a size, which the filters do not read).\<close>

definition bareModel :: catalog_model where
  "bareModel = \<lparr>modelId = ''m2'', sizeMB = 10, accuracy = None, deploymentOptions = None\<rparr>"

text \<open>A model whose accuracy is the literal \<^verbatim>\<open>0.009\<close>.\<close>

definition faintModel :: catalog_model where
  "faintModel = \<lparr>modelId = ''faint'', sizeMB = 10, accuracy = Some (decimal 9 3),
     deploymentOptions = None\<rparr>"

text \<open>Two lightweight models of the same size, and a smaller standard one.\<close>

definition twinFirst :: model where
  "twinFirst = spreadModel edgeModel lightweight (Some 0) ''computer_vision'' ''image_classification''"

definition twinSecond :: model where
  "twinSecond = spreadModel (edgeModel\<lparr>modelId := ''edge-twin''\<rparr>) lightweight (Some 0)
     ''computer_vision'' ''image_classification''"

definition smallStandard :: model where
  "smallStandard = spreadModel (browserModel\<lparr>modelId := ''small-standard''\<rparr>) standard (Some 1)
     ''computer_vision'' ''image_classification''"

text \<open>Classifiers for the page: one that answers with confidence 0.5, one that answers
  with confidence 0.9, one that throws.\<close>

definition lowConfidenceResult :: classification where
  "lowConfidenceResult =
     \<lparr>subcategoryPredictions =
        Some [\<lparr>pcategory = Some ''computer_vision'', psubcategory = Some ''image_classification''\<rparr>],
      predictions = None, confidence = Some (1 / 2)\<rparr>"

definition lowConfidenceClassifier :: "string \<Rightarrow> js_error + classification" where
  "lowConfidenceClassifier d = Inr lowConfidenceResult"

definition keywordClassifier :: "string \<Rightarrow> js_error + classification" where
  "keywordClassifier d =
     Inr \<lparr>subcategoryPredictions = None,
          predictions = Some [\<lparr>pcategory = Some ''natural_language_processing'', psubcategory = None\<rparr>],
          confidence = Some (9 / 10)\<rparr>"

definition throwingClassifier :: "string \<Rightarrow> js_error + classification" where
  "throwingClassifier d = Inl (Exception ''classifier failed'')"

section \<open>Facts about the rounding\<close>

lemma roundHalfEven_error: "\<bar>of_int (roundHalfEven q) - q\<bar> \<le> 1 / 2"
proof -
  have "of_int \<lfloor>q\<rfloor> \<le> q" "q < of_int \<lfloor>q\<rfloor> + 1" by linarith+
  then show ?thesis
    by (auto simp: roundHalfEven_def Let_def)
qed

lemma roundHalfEven_ge_one: "1 / 2 < q \<Longrightarrow> 1 \<le> roundHalfEven q"
proof -
  assume q: "1 / 2 < q"
  then have "0 \<le> \<lfloor>q\<rfloor>" by simp
  then consider "\<lfloor>q\<rfloor> = 0" | "1 \<le> \<lfloor>q\<rfloor>" by linarith
  then show ?thesis
  proof cases
    case 1
    with q show ?thesis by (simp add: roundHalfEven_def Let_def)
  next
    case 2
    then show ?thesis by (auto simp: roundHalfEven_def Let_def)
  qed
qed

lemma ratio_bounds:
  fixes p q :: int
  assumes "0 < p" "0 < q"
  defines "d \<equiv> int (floorlog 2 (nat p)) - int (floorlog 2 (nat q))"
  shows "power_int 2 (d - 1) < (of_int p / of_int q :: rat)"
    and "(of_int p / of_int q :: rat) < power_int 2 (d + 1)"
proof -
  define a where "a = floorlog 2 (nat p)"
  define b where "b = floorlog 2 (nat q)"
  from floorlog_bounds [of "nat p" 2] assms(1)
  have pa: "2 ^ (a - 1) \<le> nat p" "nat p < 2 ^ a" by (simp_all add: a_def)
  from floorlog_bounds [of "nat q" 2] assms(2)
  have qb: "2 ^ (b - 1) \<le> nat q" "nat q < 2 ^ b" by (simp_all add: b_def)
  have a1: "1 \<le> a" using pa(2) assms(1) by (cases a) auto
  have b1: "1 \<le> b" using qb(2) assms(2) by (cases b) auto
  have "(of_nat (2 ^ (a - 1)) :: rat) \<le> of_nat (nat p)" "(of_nat (nat p) :: rat) < of_nat (2 ^ a)"
    using pa by (simp_all only: of_nat_le_iff of_nat_less_iff)
  then have P: "(2::rat) ^ (a - 1) \<le> of_int p" "of_int p < (2::rat) ^ a"
    using assms(1) by simp_all
  have "(of_nat (2 ^ (b - 1)) :: rat) \<le> of_nat (nat q)" "(of_nat (nat q) :: rat) < of_nat (2 ^ b)"
    using qb by (simp_all only: of_nat_le_iff of_nat_less_iff)
  then have Q: "(2::rat) ^ (b - 1) \<le> of_int q" "of_int q < (2::rat) ^ b"
    using assms(2) by simp_all
  have "d - 1 = int (a - 1) - int b" using a1 by (simp add: d_def a_def b_def)
  then have e1: "power_int (2::rat) (d - 1) = 2 ^ (a - 1) / 2 ^ b"
    by (simp add: power_int_diff)
  have "d + 1 = int a - int (b - 1)" using b1 by (simp add: d_def a_def b_def)
  then have e2: "power_int (2::rat) (d + 1) = 2 ^ a / 2 ^ (b - 1)"
    by (simp add: power_int_diff)
  have qpos: "(0::rat) < of_int q" using assms(2) by simp
  have ppos: "(0::rat) \<le> of_int p" using assms(1) by simp
  show "power_int 2 (d - 1) < (of_int p / of_int q :: rat)"
    unfolding e1 by (rule frac_less2) (use P Q qpos in simp_all)
  show "(of_int p / of_int q :: rat) < power_int 2 (d + 1)"
    unfolding e2 by (rule frac_less) (use P Q ppos in simp_all)
qed

text \<open>The exponent is the right one: \<open>2 ^ e \<le> x < 2 ^ (e + 1)\<close>.\<close>

lemma binaryExponent_bounds:
  assumes "0 < x"
  shows "power_int 2 (binaryExponent x) \<le> x" and "x < power_int 2 (binaryExponent x + 1)"
proof -
  obtain p q where pq: "quotient_of x = (p, q)" by force
  have q: "0 < q" by (rule quotient_of_denom_pos [OF pq])
  have x: "x = of_int p / of_int q" by (rule quotient_of_div [OF pq])
  have p: "0 < p"
    using assms q unfolding x by (simp add: zero_less_divide_iff)
  define d where "d = int (floorlog 2 (nat p)) - int (floorlog 2 (nat q))"
  from ratio_bounds [OF p q] have lo: "power_int 2 (d - 1) < x" and hi: "x < power_int 2 (d + 1)"
    by (simp_all add: d_def x)
  have be: "binaryExponent x = (if power_int 2 d \<le> x then d else d - 1)"
    by (simp add: binaryExponent_def pq d_def Let_def bitlen_def)
  show "power_int 2 (binaryExponent x) \<le> x"
    using lo by (simp add: be)
  show "x < power_int 2 (binaryExponent x + 1)"
    using hi by (simp add: be)
qed

lemma toDouble_positive:
  assumes "underflowBound < x"
  shows "0 < toDouble x"
proof -
  have half: "power_int (2::rat) (- 1074) = underflowBound * 2"
    using power_int_add_1 [of "2::rat" "- 1075"] by (simp add: underflowBound_def)
  have "0 < underflowBound" by (simp add: underflowBound_def)
  with assms have xpos: "0 < x" by linarith
  define e where "e = max (binaryExponent x) (- 1022)"
  define ulp :: rat where "ulp = power_int 2 (e - 52)"
  have ulp_pos: "0 < ulp" by (simp add: ulp_def)
  have "ulp / 2 < x"
  proof (cases "binaryExponent x \<le> - 1022")
    case True
    then have "e - 52 = - 1074" by (simp add: e_def)
    then have "ulp = underflowBound * 2" unfolding ulp_def by (simp only: half)
    with assms show ?thesis by simp
  next
    case False
    then have "e = binaryExponent x" by (simp add: e_def)
    then have "ulp \<le> power_int 2 (binaryExponent x)"
      unfolding ulp_def by (simp add: power_int_increasing)
    with binaryExponent_bounds(1) [OF xpos] ulp_pos show ?thesis by linarith
  qed
  then have "1 / 2 < x / ulp" using ulp_pos by (simp add: pos_less_divide_eq)
  then have "1 \<le> roundHalfEven (x / ulp)" by (rule roundHalfEven_ge_one)
  then have "(0::rat) < of_int (roundHalfEven (x / ulp)) * ulp"
    using ulp_pos by simp
  then show ?thesis
    using xpos by (simp add: toDouble_def Let_def e_def ulp_def)
qed

lemma toDouble_error:
  assumes "power_int 2 (- 1022) \<le> x"
  shows "\<bar>toDouble x - x\<bar> \<le> x / 2 ^ 53"
proof -
  have xpos: "0 < x" using assms zero_less_power_int [of "2::rat" "- 1022"] by linarith
  define b where "b = binaryExponent x"
  have lo: "power_int 2 b \<le> x" and hi: "x < power_int 2 (b + 1)"
    using binaryExponent_bounds [OF xpos] by (simp_all add: b_def)
  have b: "- 1022 \<le> b"
  proof (rule ccontr)
    assume "\<not> - 1022 \<le> b"
    then have "b + 1 \<le> - 1022" by simp
    then have "power_int (2::rat) (b + 1) \<le> power_int 2 (- 1022)"
      by (intro power_int_increasing) simp_all
    with assms hi show False by linarith
  qed
  define ulp :: rat where "ulp = power_int 2 (b - 52)"
  have ulp_pos: "0 < ulp" by (simp add: ulp_def)
  have td: "toDouble x = of_int (roundHalfEven (x / ulp)) * ulp"
    using xpos b by (simp add: toDouble_def Let_def b_def ulp_def max_def)
  have "\<bar>of_int (roundHalfEven (x / ulp)) - x / ulp\<bar> * ulp \<le> 1 / 2 * ulp"
    using roundHalfEven_error [of "x / ulp"] ulp_pos by (intro mult_right_mono) simp_all
  moreover have "\<bar>of_int (roundHalfEven (x / ulp)) - x / ulp\<bar> * ulp
      = \<bar>of_int (roundHalfEven (x / ulp)) * ulp - x\<bar>"
  proof -
    have "\<bar>of_int (roundHalfEven (x / ulp)) - x / ulp\<bar> * ulp
        = \<bar>(of_int (roundHalfEven (x / ulp)) - x / ulp) * ulp\<bar>"
      using ulp_pos by (simp add: abs_mult)
    also have "(of_int (roundHalfEven (x / ulp)) - x / ulp) * ulp
        = of_int (roundHalfEven (x / ulp)) * ulp - x"
      using ulp_pos by (simp add: algebra_simps)
    finally show ?thesis .
  qed
  ultimately have err: "\<bar>toDouble x - x\<bar> \<le> ulp / 2" by (simp add: td)
  have "power_int (2::rat) (b - 53 + 1) = power_int 2 (b - 53) * 2"
    by (rule power_int_add_1) simp
  then have "ulp = power_int 2 (b - 53) * 2"
    unfolding ulp_def by simp
  moreover have "power_int (2::rat) (b - 53) = power_int 2 b / 2 ^ 53"
    using power_int_diff [of "2::rat" b 53] by simp
  ultimately have "ulp / 2 = power_int 2 b / 2 ^ 53" by simp
  also have "\<dots> \<le> x / 2 ^ 53" using lo by (simp add: divide_right_mono)
  finally show ?thesis using err by linarith
qed

lemma underflowBound_less_minNormal: "underflowBound < minNormal"
  unfolding underflowBound_def minNormal_def
  by (intro power_int_strict_increasing) simp_all

lemma minNormal_le_hundredth: "1 \<le> t \<Longrightarrow> minNormal \<le> t / 100"
proof -
  assume t: "1 \<le> t"
  have "power_int (2::rat) (- 1022) \<le> power_int 2 (- 7)"
    by (intro power_int_increasing) simp_all
  also have "power_int (2::rat) (- 7) = 1 / 128"
    by (simp add: power_int_minus_divide)
  also have "(1::rat) / 128 \<le> t / 100" using t by simp
  finally show ?thesis unfolding minNormal_def .
qed

lemma jsDivide_positive: "underflowBound < a / b \<Longrightarrow> 0 < jsDivide a b"
  unfolding jsDivide_def by (rule toDouble_positive)

lemma jsDivide_error: "minNormal \<le> a / b \<Longrightarrow> \<bar>jsDivide a b - a / b\<bar> \<le> a / b / 2 ^ 53"
  unfolding jsDivide_def minNormal_def by (rule toDouble_error)

text \<open>The values that the examples below compare: \<^verbatim>\<open>85 / 100\<close> against the accuracies
  of the mock catalog, and \<^verbatim>\<open>0.9 / 100\<close>, which is the double above \<^verbatim>\<open>0.009\<close>.\<close>

lemma jsDivide_85_100: "jsDivide 85 100 = 7656119366529843 / 2 ^ 53"
  by code_simp

lemma jsDivide_85_100_compared:
  "\<not> jsDivide 85 100 \<le> 0"
  "\<not> jsDivide 85 100 \<le> decimal 77 2"
  "jsDivide 85 100 \<le> decimal 85 2"
  "jsDivide 85 100 \<le> decimal 88 2"
  "jsDivide 85 100 \<le> decimal 90 2"
  "jsDivide 85 100 \<le> decimal 92 2"
  "jsDivide 85 100 \<le> decimal 95 2"
  by code_simp+

lemma jsDivide_09_100_compared:
  "decimal 9 1 \<noteq> 0"
  "\<not> jsDivide (decimal 9 1) 100 \<le> decimal 9 3"
  "decimal 9 3 < 9 / 10 / 100"
  by code_simp+

section \<open>Facts about the filters\<close>

lemma someIncluded_AllowedList:
  "someIncluded (AllowedList l) opts = Inr (set opts \<inter> set l \<noteq> {})"
  by (induction opts) auto

lemma someIncluded_NotAnArray:
  "someIncluded NotAnArray opts = (if opts = [] then Inr False else Inl TypeError)"
  by (cases opts) auto

lemma filterThrowing_total:
  "(\<And>x. x \<in> set xs \<Longrightarrow> p x = Inr (q x)) \<Longrightarrow> filterThrowing p xs = Inr (filter q xs)"
  by (induction xs) auto

lemma filterThrowing_kept:
  "filterThrowing p xs = Inr r \<Longrightarrow> r = filter (\<lambda>x. p x = Inr True) xs"
  by (induction xs arbitrary: r) (auto split: sum.splits if_splits)

lemma filterThrowing_throws:
  "x \<in> set xs \<Longrightarrow> p x = Inl e \<Longrightarrow> (\<And>y. y \<in> set xs \<Longrightarrow> p y \<noteq> Inr True \<Longrightarrow> p y \<noteq> Inr False \<Longrightarrow> p y = Inl e)
     \<Longrightarrow> filterThrowing p xs = Inl e"
proof (induction xs)
  case Nil
  then show ?case by simp
next
  case (Cons y ys)
  show ?case
  proof (cases "p y")
    case (Inl e')
    with Cons.prems(3) [of y] have "e' = e" by auto
    with Inl show ?thesis by simp
  next
    case (Inr b)
    with Cons.prems(1,2) have "x \<in> set ys" by auto
    from Cons.IH [OF this Cons.prems(2)] Cons.prems(3) have "filterThrowing p ys = Inl e"
      by simp
    with Inr show ?thesis by simp
  qed
qed

lemma allowedFor_browser: "allowedFor ''browser'' = AllowedList [''browser'']"
  by (simp add: allowedFor_def targetMatches_def)

lemma allowedFor_edge: "allowedFor ''edge'' = AllowedList [''browser'', ''edge'', ''mobile'']"
  by (simp add: allowedFor_def targetMatches_def)

lemma allowedFor_cloud:
  "allowedFor ''cloud'' = AllowedList [''cloud'', ''server'', ''edge'', ''browser'', ''mobile'']"
  by (simp add: allowedFor_def targetMatches_def)

lemma allowedFor_cases:
  "(allowedFor t = NotAnArray \<and> t \<in> set inheritedKeys) \<or> (\<exists>l. allowedFor t = AllowedList l)"
  by (auto simp: allowedFor_def split: option.splits)

lemma allowedFor_inherited:
  "t \<in> set inheritedKeys \<Longrightarrow> allowedFor t = NotAnArray"
  by (auto simp: allowedFor_def targetMatches_def inheritedKeys_def)

lemma filterByDeployment_AllowedList:
  assumes "t \<noteq> []" "allowedFor t = AllowedList l"
  shows "filterByDeployment ms (Some t) =
     Inr \<lparr>filtered = filter (\<lambda>m. set (optionsOrEmpty m) \<inter> set l \<noteq> {}) ms,
          total = length ms,
          hidden = length ms - length (filter (\<lambda>m. set (optionsOrEmpty m) \<inter> set l \<noteq> {}) ms)\<rparr>"
proof -
  have "filterThrowing (\<lambda>m. someIncluded (allowedFor t) (optionsOrEmpty m)) ms
        = Inr (filter (\<lambda>m. set (optionsOrEmpty m) \<inter> set l \<noteq> {}) ms)"
    by (rule filterThrowing_total) (simp add: assms(2) someIncluded_AllowedList)
  then show ?thesis
    using assms(1) by (simp add: filterByDeployment_def)
qed

lemma filterByDeployment_NotAnArray:
  assumes "t \<noteq> []" "allowedFor t = NotAnArray"
  shows "filterByDeployment ms (Some t) =
     (if \<forall>m \<in> set ms. optionsOrEmpty m = []
      then Inr \<lparr>filtered = [], total = length ms, hidden = length ms\<rparr>
      else Inl TypeError)"
proof (cases "\<forall>m \<in> set ms. optionsOrEmpty m = []")
  case True
  then have "filterThrowing (\<lambda>m. someIncluded (allowedFor t) (optionsOrEmpty m)) ms
        = Inr (filter (\<lambda>m. False) ms)"
    by (intro filterThrowing_total) (simp add: assms(2))
  with True show ?thesis
    using assms(1) by (simp add: filterByDeployment_def)
next
  case False
  then obtain m where m: "m \<in> set ms" "optionsOrEmpty m \<noteq> []" by auto
  have "filterThrowing (\<lambda>m. someIncluded (allowedFor t) (optionsOrEmpty m)) ms = Inl TypeError"
  proof (rule filterThrowing_throws [OF m(1)])
    show "someIncluded (allowedFor t) (optionsOrEmpty m) = Inl TypeError"
      using m(2) by (simp add: assms(2) someIncluded_NotAnArray)
  next
    fix y
    assume "someIncluded (allowedFor t) (optionsOrEmpty y) \<noteq> Inr True"
      "someIncluded (allowedFor t) (optionsOrEmpty y) \<noteq> Inr False"
    then show "someIncluded (allowedFor t) (optionsOrEmpty y) = Inl TypeError"
      by (simp add: assms(2) someIncluded_NotAnArray split: if_splits)
  qed
  with False show ?thesis
    using assms(1) by (simp add: filterByDeployment_def)
qed

lemma hidden_filterByAccuracy:
  "hidden (filterByAccuracy ms t) = length ms - length (filtered (filterByAccuracy ms t))"
  by (simp add: filterByAccuracy_def Let_def)

lemma hidden_filterByDeployment:
  "filterByDeployment ms tgt = Inr r \<Longrightarrow> hidden r = length ms - length (filtered r)"
  by (auto simp: filterByDeployment_def split: option.splits if_splits sum.splits)

lemma filterByDeployment_returns:
  assumes "\<And>t. tgt = Some t \<Longrightarrow> t \<notin> set inheritedKeys"
  shows "\<exists>r. filterByDeployment ms tgt = Inr r"
proof (cases tgt)
  case None
  then show ?thesis by (simp add: filterByDeployment_def)
next
  case (Some t)
  show ?thesis
  proof (cases "t = []")
    case True
    with Some show ?thesis by (simp add: filterByDeployment_def)
  next
    case False
    from assms [OF Some] allowedFor_cases [of t] obtain l where "allowedFor t = AllowedList l"
      by auto
    from filterByDeployment_AllowedList [OF False this, of ms] Some show ?thesis by blast
  qed
qed

section \<open>Facts about the ranking\<close>

lemma enumerate_TIERS:
  "enumerate 0 TIERS = [(0, lightweight), (1, standard), (2, advanced), (3, xlarge)]"
  by (simp add: TIERS_def enumerate_eq_zip upt_rec)

lemma taggedWithTier_iff: "taggedWithTier m \<longleftrightarrow> tierPriority m = Some (tierRank (tier m))"
  by (cases "tier m") (auto simp: taggedWithTier_def enumerate_TIERS)

lemma tierRank_inj: "tierRank a = tierRank b \<Longrightarrow> a = b"
  by (cases a; cases b) simp_all

lemma length_insertSorted [simp]: "length (insertSorted cmp x ys) = Suc (length ys)"
  by (induction ys) auto

lemma length_arraySort [simp]: "length (arraySort cmp xs) = length xs"
  by (induction xs) auto

lemma length_rankBySize [simp]: "length (rankBySize ms) = length ms"
  by (simp add: rankBySize_def)

lemma insertSorted_insort_key:
  "(\<And>y. y \<in> set ys \<Longrightarrow> (cmp x y \<le> 0) = (k x \<le> k y))
     \<Longrightarrow> insertSorted cmp x ys = insort_key k x ys"
  by (induction ys) auto

lemma arraySort_sort_key:
  "(\<And>a b. a \<in> set xs \<Longrightarrow> b \<in> set xs \<Longrightarrow> (cmp a b \<le> 0) = (k a \<le> k b))
     \<Longrightarrow> arraySort cmp xs = sort_key k xs"
proof (induction xs)
  case Nil
  then show ?case by simp
next
  case (Cons x xs)
  have "arraySort cmp xs = sort_key k xs"
    by (rule Cons.IH) (simp add: Cons.prems)
  moreover have "insertSorted cmp x (sort_key k xs) = insort_key k x (sort_key k xs)"
    by (rule insertSorted_insort_key) (simp add: Cons.prems)
  ultimately show ?case by simp
qed

lemma compareModels_le_iff:
  assumes "(tierPriority a = None) = (tierPriority b = None)"
  shows "(compareModels a b \<le> 0) = (rankKey a \<le> rankKey b)"
proof (cases "tierPriority a")
  case None
  with assms have "tierPriority b = None" by simp
  with None show ?thesis
    by (simp add: compareModels_def tierPriorityDiff_def rankKey_def priorityOrZero_def
        less_eq_prod_def)
next
  case (Some p)
  with assms obtain q where q: "tierPriority b = Some q" by auto
  show ?thesis
    using Some q
    by (auto simp: compareModels_def tierPriorityDiff_def rankKey_def priorityOrZero_def
        less_eq_prod_def)
qed

lemma rankBySize_sort_key:
  assumes "uniformPriority ms"
  shows "rankBySize ms = sort_key rankKey ms"
  unfolding rankBySize_def
proof (rule arraySort_sort_key)
  fix a b assume "a \<in> set ms" "b \<in> set ms"
  with assms have "(tierPriority a = None) = (tierPriority b = None)"
    by (auto simp: uniformPriority_def)
  then show "(compareModels a b \<le> 0) = (rankKey a \<le> rankKey b)"
    by (rule compareModels_le_iff)
qed

lemma compareModels_antisym: "compareModels b a = - compareModels a b"
  by (auto simp: compareModels_def tierPriorityDiff_def split: option.splits)

text \<open>Whatever the comparator, as long as swapping its arguments negates it, the
  insertion sort leaves every neighbouring pair in order, and such a list is sorted to
  itself.\<close>

lemma successively_insertSorted:
  assumes anti: "\<And>a b. cmp b a = - cmp a b"
      and "successively (\<lambda>a b. cmp a b \<le> 0) ys"
  shows "successively (\<lambda>a b. cmp a b \<le> 0) (insertSorted cmp x ys)"
  using assms(2)
proof (induction ys)
  case Nil
  then show ?case by simp
next
  case (Cons y ys)
  show ?case
  proof (cases "cmp x y \<le> 0")
    case True
    with Cons.prems show ?thesis by simp
  next
    case False
    then have yx: "cmp y x \<le> 0" using anti[of x y] by simp
    have tl: "successively (\<lambda>a b. cmp a b \<le> 0) (insertSorted cmp x ys)"
      using Cons by (cases ys) auto
    show ?thesis
    proof (cases ys)
      case Nil
      with False yx show ?thesis by simp
    next
      case (Cons z zs)
      with False yx tl \<open>successively (\<lambda>a b. cmp a b \<le> 0) (y # ys)\<close> show ?thesis
        by (cases "cmp x z \<le> 0") auto
    qed
  qed
qed

lemma successively_arraySort:
  assumes "\<And>a b. cmp b a = - cmp a b"
  shows "successively (\<lambda>a b. cmp a b \<le> 0) (arraySort cmp xs)"
proof (induction xs)
  case Nil
  then show ?case by simp
next
  case (Cons x xs)
  show ?case
    unfolding arraySort.simps by (rule successively_insertSorted [OF assms Cons.IH])
qed

lemma arraySort_fixed:
  "successively (\<lambda>a b. cmp a b \<le> 0) xs \<Longrightarrow> arraySort cmp xs = xs"
proof (induction xs)
  case Nil
  then show ?case by simp
next
  case (Cons x xs)
  then have "arraySort cmp xs = xs" by (cases xs) auto
  with Cons.prems show ?case by (cases xs) auto
qed

lemma arraySort_map:
  assumes "\<And>a b. cmp (f a) (f b) = cmp a b"
  shows "arraySort cmp (map f xs) = map f (arraySort cmp xs)"
proof -
  have ins: "insertSorted cmp (f x) (map f ys) = map f (insertSorted cmp x ys)" for x ys
    by (induction ys) (simp_all add: assms)
  show ?thesis by (induction xs) (simp_all add: ins)
qed

section \<open>The accuracy filter\<close>

text \<open>
  C2. With threshold 0 \<open>filterByAccuracy\<close> returns the input list unchanged (models
  without accuracy included) and hidden count 0. With any other threshold \<open>t\<close> it keeps
  exactly the models whose accuracy, a missing one counting as 0, is at least \<open>t\<close>
  divided by 100, the quotient being the one the program computes, and the hidden count
  is the input length minus the kept length (never negative). The computed quotient is
  positive, and so every model without accuracy excluded, whenever the exact quotient
  is above half the smallest positive double; it differs from the exact quotient by at
  most one part in \<open>2 ^ 53\<close> whenever that is no smaller than the smallest normal double.
  Both hold for every threshold from 1 upwards, so for all of the range 1 to 95.
\<close>

theorem filterByAccuracy_threshold:
  "filterByAccuracy ms 0 = \<lparr>filtered = ms, total = length ms, hidden = 0\<rparr>
   \<and> (t \<noteq> 0 \<longrightarrow>
        filtered (filterByAccuracy ms t)
          = filter (\<lambda>m. jsDivide t 100 \<le> (case accuracy m of None \<Rightarrow> 0 | Some a \<Rightarrow> a)) ms)
   \<and> hidden (filterByAccuracy ms t) = length ms - length (filtered (filterByAccuracy ms t))
   \<and> length (filtered (filterByAccuracy ms t)) \<le> length ms
   \<and> (underflowBound < t / 100 \<longrightarrow>
        0 < jsDivide t 100
        \<and> (\<forall>m \<in> set (filtered (filterByAccuracy ms t)). accuracy m \<noteq> None))
   \<and> (minNormal \<le> t / 100 \<longrightarrow> \<bar>jsDivide t 100 - t / 100\<bar> \<le> t / 100 / 2 ^ 53)
   \<and> (1 \<le> t \<longrightarrow> underflowBound < t / 100 \<and> minNormal \<le> t / 100)"
proof -
  have zero: "filterByAccuracy ms 0 = \<lparr>filtered = ms, total = length ms, hidden = 0\<rparr>"
    by (simp add: filterByAccuracy_def)
  have kept: "t \<noteq> 0 \<longrightarrow> filtered (filterByAccuracy ms t)
      = filter (\<lambda>m. jsDivide t 100 \<le> (case accuracy m of None \<Rightarrow> 0 | Some a \<Rightarrow> a)) ms"
    by (simp add: filterByAccuracy_def accuracyOrZero_def Let_def)
  have hid: "hidden (filterByAccuracy ms t) = length ms - length (filtered (filterByAccuracy ms t))"
    by (rule hidden_filterByAccuracy)
  have len: "length (filtered (filterByAccuracy ms t)) \<le> length ms"
    by (simp add: filterByAccuracy_def Let_def)
  have excluded: "underflowBound < t / 100 \<longrightarrow>
        0 < jsDivide t 100
        \<and> (\<forall>m \<in> set (filtered (filterByAccuracy ms t)). accuracy m \<noteq> None)"
  proof
    assume n: "underflowBound < t / 100"
    have "0 < underflowBound" by (simp add: underflowBound_def)
    with n have t: "t \<noteq> 0" by auto
    note q = jsDivide_positive [OF n]
    have "\<forall>m \<in> set (filtered (filterByAccuracy ms t)). accuracy m \<noteq> None"
      using t q
      by (auto simp: filterByAccuracy_def accuracyOrZero_def Let_def split: option.splits)
    with q show "0 < jsDivide t 100
        \<and> (\<forall>m \<in> set (filtered (filterByAccuracy ms t)). accuracy m \<noteq> None)"
      by simp
  qed
  have close: "minNormal \<le> t / 100 \<longrightarrow> \<bar>jsDivide t 100 - t / 100\<bar> \<le> t / 100 / 2 ^ 53"
    by (rule impI) (rule jsDivide_error)
  have range: "1 \<le> t \<longrightarrow> underflowBound < t / 100 \<and> minNormal \<le> t / 100"
  proof
    assume "1 \<le> t"
    then have "minNormal \<le> t / 100" by (rule minNormal_le_hundredth)
    with underflowBound_less_minNormal
    show "underflowBound < t / 100 \<and> minNormal \<le> t / 100" by linarith
  qed
  show ?thesis
    by (rule conjI [OF zero conjI [OF kept conjI [OF hid conjI [OF len
          conjI [OF excluded conjI [OF close range]]]]]])
qed

theorem filterByAccuracy_threshold_witness:
  "filterByAccuracy [bareModel, browserModel, standardBrowser] 85
     = \<lparr>filtered = [standardBrowser], total = 3, hidden = 2\<rparr>
   \<and> filterByAccuracy [bareModel, browserModel] 0
     = \<lparr>filtered = [bareModel, browserModel], total = 2, hidden = 0\<rparr>
   \<and> underflowBound < 85 / 100 \<and> minNormal \<le> 85 / 100
   \<and> accuracy bareModel = None
   \<and> filterByAccuracy [faintModel] (decimal 9 1) = \<lparr>filtered = [], total = 1, hidden = 1\<rparr>"
proof -
  have n: "underflowBound < 85 / 100 \<and> minNormal \<le> 85 / 100"
    using filterByAccuracy_threshold [of "[bareModel, browserModel, standardBrowser]" 85]
    by simp
  have a: "filterByAccuracy [bareModel, browserModel, standardBrowser] 85
     = \<lparr>filtered = [standardBrowser], total = 3, hidden = 2\<rparr>"
    by (simp add: filterByAccuracy_def accuracyOrZero_def Let_def bareModel_def
        browserModel_def standardBrowser_def jsDivide_85_100_compared)
  have b: "filterByAccuracy [bareModel, browserModel] 0
     = \<lparr>filtered = [bareModel, browserModel], total = 2, hidden = 0\<rparr>"
    by (simp add: filterByAccuracy_def)
  have c: "filterByAccuracy [faintModel] (decimal 9 1) = \<lparr>filtered = [], total = 1, hidden = 1\<rparr>"
    by (simp add: filterByAccuracy_def accuracyOrZero_def Let_def faintModel_def
        jsDivide_09_100_compared del: One_nat_def)
  from a b n c show ?thesis by (simp add: bareModel_def)
qed

section \<open>The deployment filter\<close>

text \<open>
  C3. With target null \<open>filterByDeployment\<close> returns the input list unchanged and hidden
  count 0. With target browser it keeps exactly the models whose deployment options meet
  \<open>{browser}\<close>, with edge those meeting \<open>{browser, edge, mobile}\<close>, with cloud those
  meeting \<open>{browser, edge, mobile, cloud, server}\<close>; the hidden count is the input length
  minus the kept length.
\<close>

theorem filterByDeployment_targets:
  "filterByDeployment ms None = Inr \<lparr>filtered = ms, total = length ms, hidden = 0\<rparr>
   \<and> filterByDeployment ms (Some ''browser'')
       = Inr \<lparr>filtered = filter (\<lambda>m. set (optionsOrEmpty m) \<inter> {''browser''} \<noteq> {}) ms,
              total = length ms,
              hidden = length ms
                - length (filter (\<lambda>m. set (optionsOrEmpty m) \<inter> {''browser''} \<noteq> {}) ms)\<rparr>
   \<and> filterByDeployment ms (Some ''edge'')
       = Inr \<lparr>filtered =
                filter (\<lambda>m. set (optionsOrEmpty m) \<inter> {''browser'', ''edge'', ''mobile''} \<noteq> {}) ms,
              total = length ms,
              hidden = length ms
                - length (filter
                    (\<lambda>m. set (optionsOrEmpty m) \<inter> {''browser'', ''edge'', ''mobile''} \<noteq> {}) ms)\<rparr>
   \<and> filterByDeployment ms (Some ''cloud'')
       = Inr \<lparr>filtered =
                filter (\<lambda>m. set (optionsOrEmpty m)
                    \<inter> {''browser'', ''edge'', ''mobile'', ''cloud'', ''server''} \<noteq> {}) ms,
              total = length ms,
              hidden = length ms
                - length (filter (\<lambda>m. set (optionsOrEmpty m)
                    \<inter> {''browser'', ''edge'', ''mobile'', ''cloud'', ''server''} \<noteq> {}) ms)\<rparr>"
proof -
  have n: "filterByDeployment ms None = Inr \<lparr>filtered = ms, total = length ms, hidden = 0\<rparr>"
    by (simp add: filterByDeployment_def)
  have ne: "''cloud'' \<noteq> []" by simp
  have cloud_set: "set [''cloud'', ''server'', ''edge'', ''browser'', ''mobile'']
      = {''browser'', ''edge'', ''mobile'', ''cloud'', ''server''}"
    by auto
  have c: "filterByDeployment ms (Some ''cloud'')
       = Inr \<lparr>filtered =
                filter (\<lambda>m. set (optionsOrEmpty m)
                    \<inter> {''browser'', ''edge'', ''mobile'', ''cloud'', ''server''} \<noteq> {}) ms,
              total = length ms,
              hidden = length ms
                - length (filter (\<lambda>m. set (optionsOrEmpty m)
                    \<inter> {''browser'', ''edge'', ''mobile'', ''cloud'', ''server''} \<noteq> {}) ms)\<rparr>"
    using filterByDeployment_AllowedList [OF ne allowedFor_cloud, of ms]
    unfolding cloud_set .
  from n c filterByDeployment_AllowedList [OF _ allowedFor_browser, of ms]
    filterByDeployment_AllowedList [OF _ allowedFor_edge, of ms]
  show ?thesis by simp
qed

theorem filterByDeployment_targets_witness:
  "filterByDeployment [browserModel, cloudOnly, standardBrowser] (Some ''browser'')
     = Inr \<lparr>filtered = [browserModel, standardBrowser], total = 3, hidden = 1\<rparr>
   \<and> filterByDeployment [standardBrowser, edgeModel, advancedServer] (Some ''edge'')
     = Inr \<lparr>filtered = [standardBrowser, edgeModel], total = 3, hidden = 1\<rparr>
   \<and> filterByDeployment [standardBrowser, standardCloud, advancedServer, bareModel] (Some ''cloud'')
     = Inr \<lparr>filtered = [standardBrowser, standardCloud, advancedServer], total = 4, hidden = 1\<rparr>"
  using filterByDeployment_targets [of "[browserModel, cloudOnly, standardBrowser]"]
    filterByDeployment_targets [of "[standardBrowser, edgeModel, advancedServer]"]
    filterByDeployment_targets [of "[standardBrowser, standardCloud, advancedServer, bareModel]"]
  by (simp add: optionsOrEmpty_def browserModel_def cloudOnly_def standardBrowser_def
      edgeModel_def advancedServer_def standardCloud_def bareModel_def)

text \<open>
  C8. On the same input, every model that the target browser keeps is kept by the target
  cloud as well (both calls return): as sets and, counting repetitions, as multisets.
\<close>

theorem cloud_keeps_what_browser_keeps:
  "\<exists>rb rc. filterByDeployment ms (Some ''browser'') = Inr rb
     \<and> filterByDeployment ms (Some ''cloud'') = Inr rc
     \<and> set (filtered rb) \<subseteq> set (filtered rc)
     \<and> mset (filtered rb) \<subseteq># mset (filtered rc)"
proof -
  let ?b = "\<lambda>m. set (optionsOrEmpty m) \<inter> set [''browser''] \<noteq> {}"
  let ?c = "\<lambda>m. set (optionsOrEmpty m)
      \<inter> set [''cloud'', ''server'', ''edge'', ''browser'', ''mobile''] \<noteq> {}"
  have imp: "?b m \<Longrightarrow> ?c m" for m by auto
  have sub: "mset (filter ?b ms) \<subseteq># mset (filter ?c ms)"
    unfolding mset_filter by (rule filter_mset_mono_strong) (use imp in auto)
  have "set (filter ?b ms) \<subseteq> set (filter ?c ms)"
    using imp by auto
  with sub filterByDeployment_AllowedList [OF _ allowedFor_browser, of ms]
    filterByDeployment_AllowedList [OF _ allowedFor_cloud, of ms]
  show ?thesis by simp
qed

theorem cloud_keeps_what_browser_keeps_witness:
  "filterByDeployment [browserModel, cloudOnly, bareModel] (Some ''browser'')
     = Inr \<lparr>filtered = [browserModel], total = 3, hidden = 2\<rparr>
   \<and> filterByDeployment [browserModel, cloudOnly, bareModel] (Some ''cloud'')
     = Inr \<lparr>filtered = [browserModel, cloudOnly], total = 3, hidden = 1\<rparr>
   \<and> set [browserModel] \<subseteq> set [browserModel, cloudOnly]"
  using cloud_keeps_what_browser_keeps [of "[browserModel, cloudOnly, bareModel]"]
  by (simp add: filterByDeployment_def allowedFor_def targetMatches_def optionsOrEmpty_def
      browserModel_def cloudOnly_def bareModel_def)

text \<open>
  C10. For every deployment target - a non-empty string, the empty one being what the
  callers turn into null - a model whose deployment options are missing or empty is
  never kept: for browser, edge and cloud, and for every other target that is not a
  name the lookup table inherits, the call returns and every kept model has a
  deployment option; and whatever the target, a call that returns has kept no model
  without one. The missing field counts as the empty list, never as matching everything.
\<close>

theorem filterByDeployment_excludes_missing_options:
  "(\<forall>t \<in> {''browser'', ''edge'', ''cloud''}.
       \<exists>r. filterByDeployment ms (Some t) = Inr r
         \<and> (\<forall>m \<in> set (filtered r). deploymentOptions m \<noteq> None \<and> deploymentOptions m \<noteq> Some []))
   \<and> (t \<noteq> [] \<and> t \<notin> set inheritedKeys \<longrightarrow>
        (\<exists>r. filterByDeployment ms (Some t) = Inr r
           \<and> (\<forall>m \<in> set (filtered r). deploymentOptions m \<noteq> None \<and> deploymentOptions m \<noteq> Some [])))
   \<and> (t \<noteq> [] \<longrightarrow>
        (\<forall>r. filterByDeployment ms (Some t) = Inr r \<longrightarrow>
           (\<forall>m \<in> set (filtered r). deploymentOptions m \<noteq> None \<and> deploymentOptions m \<noteq> Some [])))"
proof -
  have returned: "\<forall>m \<in> set (filtered r). deploymentOptions m \<noteq> None \<and> deploymentOptions m \<noteq> Some []"
    if ne: "u \<noteq> []" and r: "filterByDeployment ms (Some u) = Inr r" for u r
  proof (cases "allowedFor u")
    case (AllowedList l)
    from filterByDeployment_AllowedList [OF ne this, of ms] r
    have "filtered r = filter (\<lambda>m. set (optionsOrEmpty m) \<inter> set l \<noteq> {}) ms" by auto
    then have "\<forall>m \<in> set (filtered r). optionsOrEmpty m \<noteq> []" by auto
    then show ?thesis by (auto simp: optionsOrEmpty_def split: option.splits)
  next
    case NotAnArray
    from filterByDeployment_NotAnArray [OF ne this, of ms] r
    have "filtered r = []" by (auto split: if_splits)
    then show ?thesis by simp
  qed
  have own: "\<exists>r. filterByDeployment ms (Some u) = Inr r
      \<and> (\<forall>m \<in> set (filtered r). deploymentOptions m \<noteq> None \<and> deploymentOptions m \<noteq> Some [])"
    if ne: "u \<noteq> []" and ni: "u \<notin> set inheritedKeys" for u
  proof -
    from ni have "\<exists>r. filterByDeployment ms (Some u) = Inr r"
      by (intro filterByDeployment_returns) simp
    then obtain r where r: "filterByDeployment ms (Some u) = Inr r" by blast
    with returned [OF ne r] show ?thesis by blast
  qed
  have documented: "\<forall>t \<in> {''browser'', ''edge'', ''cloud''}.
       \<exists>r. filterByDeployment ms (Some t) = Inr r
         \<and> (\<forall>m \<in> set (filtered r). deploymentOptions m \<noteq> None \<and> deploymentOptions m \<noteq> Some [])"
  proof
    fix u :: string assume "u \<in> {''browser'', ''edge'', ''cloud''}"
    then have "u \<noteq> []" "u \<notin> set inheritedKeys"
      by (auto simp: inheritedKeys_def)
    then show "\<exists>r. filterByDeployment ms (Some u) = Inr r
        \<and> (\<forall>m \<in> set (filtered r). deploymentOptions m \<noteq> None \<and> deploymentOptions m \<noteq> Some [])"
      by (rule own)
  qed
  have other: "t \<noteq> [] \<and> t \<notin> set inheritedKeys \<longrightarrow>
        (\<exists>r. filterByDeployment ms (Some t) = Inr r
           \<and> (\<forall>m \<in> set (filtered r). deploymentOptions m \<noteq> None \<and> deploymentOptions m \<noteq> Some []))"
    using own by blast
  have any: "t \<noteq> [] \<longrightarrow>
        (\<forall>r. filterByDeployment ms (Some t) = Inr r \<longrightarrow>
           (\<forall>m \<in> set (filtered r). deploymentOptions m \<noteq> None \<and> deploymentOptions m \<noteq> Some []))"
    using returned by blast
  show ?thesis
    by (rule conjI [OF documented conjI [OF other any]])
qed

theorem filterByDeployment_excludes_missing_options_witness:
  "''mobile'' \<noteq> [] \<and> ''mobile'' \<notin> set inheritedKeys
   \<and> deploymentOptions bareModel = None
   \<and> filterByDeployment [standardBrowser, bareModel] (Some ''browser'')
       = Inr \<lparr>filtered = [standardBrowser], total = 2, hidden = 1\<rparr>
   \<and> filterByDeployment [browserModel, bareModel] (Some ''edge'')
       = Inr \<lparr>filtered = [browserModel], total = 2, hidden = 1\<rparr>
   \<and> filterByDeployment [cloudOnly, bareModel] (Some ''cloud'')
       = Inr \<lparr>filtered = [cloudOnly], total = 2, hidden = 1\<rparr>
   \<and> filterByDeployment [browserModel, bareModel] (Some ''mobile'')
       = Inr \<lparr>filtered = [browserModel], total = 2, hidden = 1\<rparr>"
  using filterByDeployment_excludes_missing_options [of "[standardBrowser, bareModel]" "''mobile''"]
  by (simp add: filterByDeployment_def allowedFor_def targetMatches_def inheritedKeys_def
      optionsOrEmpty_def standardBrowser_def browserModel_def cloudOnly_def bareModel_def)


section \<open>The ranking\<close>

lemma getTaskModels_tagged: "m \<in> set (getTaskModels modelsData c s) \<Longrightarrow> taggedWithTier m"
  by (auto simp: getTaskModels_def taggedWithTier_def spreadModel_def split: option.splits)

lemma tagged_uniformPriority: "\<forall>m \<in> set ms. taggedWithTier m \<Longrightarrow> uniformPriority ms"
  by (auto simp: uniformPriority_def taggedWithTier_iff)

lemma rankKey_tagged: "taggedWithTier m \<Longrightarrow> rankKey m = (tierRank (tier m), sizeMB m)"
  by (simp add: rankKey_def priorityOrZero_def taggedWithTier_iff)

lemma rankKey_le_tagged:
  assumes "taggedWithTier a" "taggedWithTier b" "rankKey a \<le> rankKey b"
  shows "tierRank (tier a) < tierRank (tier b) \<or> (tier a = tier b \<and> sizeMB a \<le> sizeMB b)"
proof (cases "tierRank (tier a) < tierRank (tier b)")
  case True
  then show ?thesis by simp
next
  case False
  with assms have "tierRank (tier a) = tierRank (tier b)" "sizeMB a \<le> sizeMB b"
    by (auto simp: rankKey_tagged less_eq_prod_def)
  then show ?thesis by (auto dest: tierRank_inj)
qed

lemma rankBySize_sorted_tagged:
  assumes "\<forall>m \<in> set ms. taggedWithTier m"
  shows "sorted_wrt (\<lambda>a b. tierRank (tier a) < tierRank (tier b)
            \<or> (tier a = tier b \<and> sizeMB a \<le> sizeMB b)) (rankBySize ms)"
proof -
  have eq: "rankBySize ms = sort_key rankKey ms"
    by (rule rankBySize_sort_key) (rule tagged_uniformPriority [OF assms])
  have "sorted (map rankKey (sort_key rankKey ms))" by (rule sorted_sort_key)
  then have "sorted_wrt (\<lambda>a b. rankKey a \<le> rankKey b) (sort_key rankKey ms)"
    by (simp add: sorted_map)
  then show ?thesis
    unfolding eq
  proof (rule sorted_wrt_mono_rel [rotated])
    fix a b assume "a \<in> set (sort_key rankKey ms)" "b \<in> set (sort_key rankKey ms)"
      "rankKey a \<le> rankKey b"
    with assms show "tierRank (tier a) < tierRank (tier b)
        \<or> (tier a = tier b \<and> sizeMB a \<le> sizeMB b)"
      by (intro rankKey_le_tagged) auto
  qed
qed

lemma rankBySize_stable_tagged:
  assumes "\<forall>m \<in> set ms. taggedWithTier m"
  shows "filter (\<lambda>m. tier m = t \<and> sizeMB m = sz) (rankBySize ms)
       = filter (\<lambda>m. tier m = t \<and> sizeMB m = sz) ms"
proof -
  have eq: "rankBySize ms = sort_key rankKey ms"
    by (rule rankBySize_sort_key) (rule tagged_uniformPriority [OF assms])
  have key: "(tier m = t \<and> sizeMB m = sz) = (rankKey m = (tierRank t, sz))"
    if "m \<in> set ms" for m
    using that assms by (auto simp: rankKey_tagged dest: tierRank_inj)
  have "filter (\<lambda>m. tier m = t \<and> sizeMB m = sz) (sort_key rankKey ms)
      = filter (\<lambda>m. rankKey m = (tierRank t, sz)) (sort_key rankKey ms)"
    by (rule filter_cong) (simp_all add: key)
  also have "\<dots> = filter (\<lambda>m. rankKey m = (tierRank t, sz)) ms"
    by (rule sort_key_stable)
  also have "\<dots> = filter (\<lambda>m. tier m = t \<and> sizeMB m = sz) ms"
    by (rule filter_cong) (simp_all add: key)
  finally show ?thesis by (simp add: eq)
qed

lemma rankBySize_mset_uniform:
  "uniformPriority ms \<Longrightarrow> mset (rankBySize ms) = mset ms"
  by (simp add: rankBySize_sort_key)

lemma rankBySize_ignores_other_fields:
  fixes f :: "'a model_scheme \<Rightarrow> 'a model_scheme"
  assumes "\<And>m. tierPriority (f m) = tierPriority m \<and> sizeMB (f m) = sizeMB m"
  shows "rankBySize (map f ms) = map f (rankBySize ms)"
  unfolding rankBySize_def
  by (rule arraySort_map)
    (simp add: compareModels_def tierPriorityDiff_def assms split: option.splits)

text \<open>
  C4, as amended. For every list of models tagged with tiers as \<open>getTaskModels\<close> tags
  them, \<open>rankBySize\<close> returns a rearrangement of the list that is sorted by tier priority
  ascending (lightweight, standard, advanced, xlarge) and by \<open>sizeMB\<close> ascending within
  a tier. For two models of the same tier, the one with the strictly smaller \<open>sizeMB\<close>
  ranks before the other, and a model that ranks before another of its tier is no
  larger; models of the same tier and the same size keep their input order. Any
  lightweight model ranks before any standard model, whatever the sizes. No field other
  than the tier priority and \<open>sizeMB\<close> takes part: changing the other fields of the
  models changes nothing in the order.
\<close>

theorem rankBySize_tier_then_size:
  fixes ms :: "'a model_scheme list"
  assumes "\<forall>m \<in> set ms. taggedWithTier m"
  shows "mset (rankBySize ms) = mset ms
       \<and> sorted_wrt (\<lambda>a b. tierRank (tier a) < tierRank (tier b)
            \<or> (tier a = tier b \<and> sizeMB a \<le> sizeMB b)) (rankBySize ms)
       \<and> (\<forall>i j. i < length ms \<and> j < length ms
              \<and> tier (rankBySize ms ! i) = tier (rankBySize ms ! j)
              \<and> sizeMB (rankBySize ms ! i) < sizeMB (rankBySize ms ! j) \<longrightarrow> i < j)
       \<and> (\<forall>i j. i < j \<and> j < length ms
              \<and> tier (rankBySize ms ! i) = tier (rankBySize ms ! j)
              \<longrightarrow> sizeMB (rankBySize ms ! i) \<le> sizeMB (rankBySize ms ! j))
       \<and> (\<forall>i j. i < length ms \<and> j < length ms
              \<and> tier (rankBySize ms ! i) = lightweight
              \<and> tier (rankBySize ms ! j) = standard \<longrightarrow> i < j)
       \<and> (\<forall>t sz. filter (\<lambda>m. tier m = t \<and> sizeMB m = sz) (rankBySize ms)
                = filter (\<lambda>m. tier m = t \<and> sizeMB m = sz) ms)
       \<and> (\<forall>f :: 'a model_scheme \<Rightarrow> 'a model_scheme.
              (\<forall>m. tierPriority (f m) = tierPriority m \<and> sizeMB (f m) = sizeMB m)
              \<longrightarrow> rankBySize (map f ms) = map f (rankBySize ms))"
proof -
  let ?out = "rankBySize ms"
  let ?R = "\<lambda>a b. tierRank (tier a) < tierRank (tier b)
      \<or> (tier a = tier b \<and> sizeMB a \<le> sizeMB b)"
  have perm: "mset ?out = mset ms"
    by (rule rankBySize_mset_uniform) (rule tagged_uniformPriority [OF assms])
  have srt: "sorted_wrt ?R ?out" by (rule rankBySize_sorted_tagged [OF assms])
  have pair: "?R (?out ! i) (?out ! j)" if "i < j" "j < length ms" for i j
    using srt that by (simp add: sorted_wrt_iff_nth_less)
  have strict: "i < j"
    if "i < length ms" "j < length ms" "tier (?out ! i) = tier (?out ! j)"
      "sizeMB (?out ! i) < sizeMB (?out ! j)" for i j
  proof (rule ccontr)
    assume "\<not> i < j"
    with that(4) have "j < i" by (cases "i = j") auto
    from pair [OF this that(1)] that(3,4) show False by auto
  qed
  have weak: "sizeMB (?out ! i) \<le> sizeMB (?out ! j)"
    if "i < j" "j < length ms" "tier (?out ! i) = tier (?out ! j)" for i j
    using pair [OF that(1,2)] that(3) by auto
  have cross: "i < j"
    if "i < length ms" "j < length ms" "tier (?out ! i) = lightweight"
      "tier (?out ! j) = standard" for i j
  proof (rule ccontr)
    assume "\<not> i < j"
    with that(3,4) have "j < i" by (cases "i = j") auto
    from pair [OF this that(1)] that(3,4) show False by auto
  qed
  have stable: "filter (\<lambda>m. tier m = t \<and> sizeMB m = sz) ?out
      = filter (\<lambda>m. tier m = t \<and> sizeMB m = sz) ms" for t sz
    by (rule rankBySize_stable_tagged [OF assms])
  have others: "rankBySize (map f ms) = map f ?out"
    if "\<forall>m. tierPriority (f m) = tierPriority m \<and> sizeMB (f m) = sizeMB m"
    for f :: "'a model_scheme \<Rightarrow> 'a model_scheme"
    by (rule rankBySize_ignores_other_fields) (use that in simp)
  show ?thesis
  proof (intro conjI allI impI)
    show "mset ?out = mset ms" by (rule perm)
    show "sorted_wrt ?R ?out" by (rule srt)
  next
    fix i j
    assume "i < length ms \<and> j < length ms \<and> tier (?out ! i) = tier (?out ! j)
        \<and> sizeMB (?out ! i) < sizeMB (?out ! j)"
    then show "i < j" using strict by blast
  next
    fix i j
    assume "i < j \<and> j < length ms \<and> tier (?out ! i) = tier (?out ! j)"
    then show "sizeMB (?out ! i) \<le> sizeMB (?out ! j)" using weak by blast
  next
    fix i j
    assume "i < length ms \<and> j < length ms \<and> tier (?out ! i) = lightweight
        \<and> tier (?out ! j) = standard"
    then show "i < j" using cross by blast
  next
    fix t sz
    show "filter (\<lambda>m. tier m = t \<and> sizeMB m = sz) ?out
        = filter (\<lambda>m. tier m = t \<and> sizeMB m = sz) ms"
      by (rule stable)
  next
    fix f :: "'a model_scheme \<Rightarrow> 'a model_scheme"
    assume "\<forall>m. tierPriority (f m) = tierPriority m \<and> sizeMB (f m) = sizeMB m"
    then show "rankBySize (map f ms) = map f ?out" by (rule others)
  qed
qed

theorem rankBySize_tier_then_size_witness:
  "taggedWithTier smallStandard \<and> taggedWithTier twinSecond \<and> taggedWithTier twinFirst
   \<and> mset (rankBySize [smallStandard, twinSecond, twinFirst])
       = mset [smallStandard, twinSecond, twinFirst]
   \<and> rankBySize [smallStandard, twinSecond, twinFirst] = [twinSecond, twinFirst, smallStandard]
   \<and> sizeMB smallStandard < sizeMB twinFirst
   \<and> rankBySize (rev (getTaskModels mockModelsData ''computer_vision'' ''image_classification''))
       = getTaskModels mockModelsData ''computer_vision'' ''image_classification''"
proof -
  have tagged: "taggedWithTier smallStandard" "taggedWithTier twinSecond" "taggedWithTier twinFirst"
    by (simp_all add: taggedWithTier_iff spreadModel_def smallStandard_def twinFirst_def
        twinSecond_def)
  then have h: "\<forall>m \<in> set [smallStandard, twinSecond, twinFirst]. taggedWithTier m" by simp
  have perm: "mset (rankBySize [smallStandard, twinSecond, twinFirst])
      = mset [smallStandard, twinSecond, twinFirst]"
    using rankBySize_tier_then_size [OF h] by blast
  have run: "rankBySize [smallStandard, twinSecond, twinFirst] = [twinSecond, twinFirst, smallStandard]"
    by (simp add: rankBySize_def compareModels_def tierPriorityDiff_def spreadModel_def
        browserModel_def edgeModel_def smallStandard_def twinFirst_def twinSecond_def)
  have size: "sizeMB smallStandard < sizeMB twinFirst"
    by (simp add: spreadModel_def browserModel_def edgeModel_def smallStandard_def twinFirst_def)
  have mock: "rankBySize (rev (getTaskModels mockModelsData ''computer_vision'' ''image_classification''))
      = getTaskModels mockModelsData ''computer_vision'' ''image_classification''"
    by (simp add: rankBySize_def compareModels_def tierPriorityDiff_def getTaskModels_def
        taskDataFor_def mockModelsData_def tierList_def enumerate_TIERS spreadModel_def
        browserModel_def edgeModel_def cloudOnly_def standardBrowser_def standardCloud_def
        advancedServer_def)
  from tagged perm run size mock show ?thesis by simp
qed

text \<open>The claim as it was stated, with \<open>\<le>\<close> in both directions, fails for two models of
  the same tier and the same size: the second is no larger than the first and still
  ranks after it.\<close>

theorem rankBySize_equal_sizes_counterexample:
  "taggedWithTier twinFirst \<and> taggedWithTier twinSecond
   \<and> tier twinSecond = tier twinFirst \<and> sizeMB twinSecond \<le> sizeMB twinFirst
   \<and> twinSecond \<noteq> twinFirst
   \<and> rankBySize [twinFirst, twinSecond] = [twinFirst, twinSecond]
   \<and> rankBySize [twinSecond, twinFirst] = [twinSecond, twinFirst]"
  by (simp add: taggedWithTier_iff rankBySize_def compareModels_def tierPriorityDiff_def
      spreadModel_def edgeModel_def twinFirst_def twinSecond_def)

text \<open>
  C9. Ranking is idempotent: ranking a ranked list changes nothing. This holds for every
  list of models, with or without tier priorities.
\<close>

theorem rankBySize_idempotent: "rankBySize (rankBySize ms) = rankBySize ms"
  unfolding rankBySize_def
  by (rule arraySort_fixed) (rule successively_arraySort, rule compareModels_antisym)

theorem rankBySize_idempotent_witness:
  "rankBySize (rankBySize [smallStandard, twinSecond, twinFirst])
     = rankBySize [smallStandard, twinSecond, twinFirst]
   \<and> rankBySize [smallStandard, twinSecond, twinFirst] = [twinSecond, twinFirst, smallStandard]"
  using rankBySize_idempotent [of "[smallStandard, twinSecond, twinFirst]"]
  by (simp add: rankBySize_def compareModels_def tierPriorityDiff_def spreadModel_def
      browserModel_def edgeModel_def smallStandard_def twinFirst_def twinSecond_def)

section \<open>Grouping by tier\<close>

lemma processTier_pipeline:
  "processTier td c s thr tgt r t =
     (case tierPipeline (tierModels td c s t) thr tgt of
        Inl e \<Rightarrow> Inl e
      | Inr g \<Rightarrow> Inr (r\<lparr>tiers := (tiers r)(t \<mapsto> g),
                         totalHidden := totalHidden r + hidden_count g,
                         totalShown := totalShown r + length (models g)\<rparr>))"
  by (auto simp: processTier_def tierPipeline_def Let_def hidden_filterByAccuracy
      hidden_filterByDeployment split: sum.splits)

lemma forEachTier_Inr:
  assumes "forEachTier (processTier td c s thr tgt) ts r0 = Inr r" "distinct ts"
  shows "(\<forall>t \<in> set ts. \<exists>g. tiers r t = Some g \<and> tierPipeline (tierModels td c s t) thr tgt = Inr g)
       \<and> (\<forall>t. t \<notin> set ts \<longrightarrow> tiers r t = tiers r0 t)
       \<and> totalHidden r = totalHidden r0 + sum_list (map (hiddenIn r) ts)
       \<and> totalShown r = totalShown r0 + sum_list (map (shownIn r) ts)"
  using assms
proof (induction ts arbitrary: r0)
  case Nil
  then show ?case by simp
next
  case (Cons t ts)
  from Cons.prems(1) obtain r1 where
    r1: "processTier td c s thr tgt r0 t = Inr r1"
    and rest0: "forEachTier (processTier td c s thr tgt) ts r1 = Inr r"
    by (cases "processTier td c s thr tgt r0 t") simp_all
  from r1 obtain g where
    g: "tierPipeline (tierModels td c s t) thr tgt = Inr g"
    and r1_eq: "r1 = r0\<lparr>tiers := (tiers r0)(t \<mapsto> g),
        totalHidden := totalHidden r0 + hidden_count g,
        totalShown := totalShown r0 + length (models g)\<rparr>"
    unfolding processTier_pipeline
    by (cases "tierPipeline (tierModels td c s t) thr tgt") auto
  from rest0 r1_eq have rest: "forEachTier (processTier td c s thr tgt) ts
      (r0\<lparr>tiers := (tiers r0)(t \<mapsto> g), totalHidden := totalHidden r0 + hidden_count g,
          totalShown := totalShown r0 + length (models g)\<rparr>) = Inr r"
    by simp
  from Cons.prems(2) have d: "distinct ts" and nt: "t \<notin> set ts" by auto
  note IH = Cons.IH [OF rest d]
  from IH nt have tt: "tiers r t = Some g" by simp
  have sh: "shownIn r t = length (models g)" and hi: "hiddenIn r t = hidden_count g"
    using tt by (simp_all add: shownIn_def hiddenIn_def)
  show ?case
    using IH g tt sh hi by auto
qed

lemma forEachTier_Inl:
  "forEachTier (processTier td c s thr tgt) ts r0 = Inl e \<Longrightarrow>
     \<exists>t \<in> set ts. tierPipeline (tierModels td c s t) thr tgt = Inl e"
proof (induction ts arbitrary: r0)
  case Nil
  then show ?case by simp
next
  case (Cons t ts)
  show ?case
  proof (cases "processTier td c s thr tgt r0 t")
    case (Inl e')
    with Cons.prems have "e' = e" by simp
    with Inl have "tierPipeline (tierModels td c s t) thr tgt = Inl e"
      unfolding processTier_pipeline
      by (cases "tierPipeline (tierModels td c s t) thr tgt") auto
    then show ?thesis by auto
  next
    case (Inr r1)
    with Cons.prems have "forEachTier (processTier td c s thr tgt) ts r1 = Inl e" by simp
    from Cons.IH [OF this] show ?thesis by auto
  qed
qed

lemma distinct_TIERS: "distinct TIERS"
  by (simp add: TIERS_def)

lemma set_TIERS: "set TIERS = UNIV"
proof -
  have "t \<in> set TIERS" for t by (cases t) (simp_all add: TIERS_def)
  then show ?thesis by auto
qed

lemma tierPipeline_Nil: "tierPipeline [] thr tgt = Inr emptyGroup"
  by (simp add: tierPipeline_def filterByAccuracy_def filterByDeployment_def emptyGroup_def
      rankBySize_def Let_def split: option.splits)

lemma tierPipeline_returns:
  assumes "\<And>t. tgt = Some t \<Longrightarrow> t \<notin> set inheritedKeys"
  shows "\<exists>g. tierPipeline ms thr tgt = Inr g"
proof -
  from filterByDeployment_returns [OF assms] obtain r where
    "filterByDeployment (filtered (filterByAccuracy ms thr)) tgt = Inr r"
    by blast
  then show ?thesis by (simp add: tierPipeline_def Let_def)
qed

lemma emptyGrouped_tiers: "tiers emptyGrouped t = Some emptyGroup"
  by (cases t) (simp_all add: emptyGrouped_def)

lemma grouped_pipeline:
  assumes "getTaskModelsGroupedByTier md c s thr tgt = Inr r"
  shows "(\<forall>t. \<exists>g. tiers r t = Some g \<and> tierPipeline (catalogTier md c s t) thr tgt = Inr g)
       \<and> totalHidden r = sum_list (map (hiddenIn r) TIERS)
       \<and> totalShown r = sum_list (map (shownIn r) TIERS)"
proof (cases "taskDataFor md c s")
  case None
  with assms have r: "r = emptyGrouped" by (simp add: getTaskModelsGroupedByTier_def)
  have "hiddenIn emptyGrouped t = 0" "shownIn emptyGrouped t = 0" for t
    by (simp_all add: hiddenIn_def shownIn_def emptyGrouped_tiers emptyGroup_def)
  then show ?thesis
    using None r
    by (simp add: catalogTier_def tierPipeline_Nil emptyGrouped_tiers)
      (simp add: emptyGrouped_def)
next
  case (Some td)
  with assms have "forEachTier (processTier td c s thr tgt) TIERS
      \<lparr>tiers = Map.empty, totalHidden = 0, totalShown = 0\<rparr> = Inr r"
    by (simp add: getTaskModelsGroupedByTier_def)
  from forEachTier_Inr [OF this distinct_TIERS] Some show ?thesis
    by (simp add: set_TIERS catalogTier_def)
qed

lemma grouped_returns_iff:
  "(\<exists>r. getTaskModelsGroupedByTier md c s thr tgt = Inr r)
     \<longleftrightarrow> (\<forall>t. \<exists>g. tierPipeline (catalogTier md c s t) thr tgt = Inr g)"
proof
  assume "\<exists>r. getTaskModelsGroupedByTier md c s thr tgt = Inr r"
  then show "\<forall>t. \<exists>g. tierPipeline (catalogTier md c s t) thr tgt = Inr g"
    using grouped_pipeline by blast
next
  assume all: "\<forall>t. \<exists>g. tierPipeline (catalogTier md c s t) thr tgt = Inr g"
  show "\<exists>r. getTaskModelsGroupedByTier md c s thr tgt = Inr r"
  proof (cases "getTaskModelsGroupedByTier md c s thr tgt")
    case (Inr r)
    then show ?thesis by blast
  next
    case (Inl e)
    then obtain td where td: "taskDataFor md c s = Some td"
      by (auto simp: getTaskModelsGroupedByTier_def split: option.splits)
    with Inl have "forEachTier (processTier td c s thr tgt) TIERS
      \<lparr>tiers = Map.empty, totalHidden = 0, totalShown = 0\<rparr> = Inl e"
      by (simp add: getTaskModelsGroupedByTier_def)
    from forEachTier_Inl [OF this] obtain t where
      "tierPipeline (tierModels td c s t) thr tgt = Inl e" by blast
    with all td show ?thesis by (auto simp: catalogTier_def dest: spec[of _ t])
  qed
qed

lemma getTaskModels_Nil_catalogTier:
  assumes "getTaskModels md c s = []"
  shows "catalogTier md c s t = []"
proof (cases "taskDataFor md c s")
  case None
  then show ?thesis by (simp add: catalogTier_def)
next
  case (Some td)
  with assms have "\<forall>(index, u) \<in> set (enumerate 0 TIERS). tierList td u = []"
    by (auto simp: getTaskModels_def)
  then have "tierList td t = []"
    by (cases t) (simp_all add: enumerate_TIERS)
  with Some show ?thesis by (simp add: catalogTier_def tierModels_def)
qed

lemmas selector_defs =
  getTaskModelsGroupedByTier_def taskDataFor_def TIERS_def processTier_def tierModels_def
  tierList_def filterByAccuracy_def filterByDeployment_def allowedFor_def targetMatches_def
  optionsOrEmpty_def accuracyOrZero_def rankBySize_def spreadModel_def compareModels_def
  tierPriorityDiff_def Let_def

lemmas fixture_defs =
  browserModel_def edgeModel_def cloudOnly_def standardBrowser_def standardCloud_def
  advancedServer_def

text \<open>The lists that the grouping ranks carry no tier priority, so ranking them is the
  stable sort by size.\<close>

lemma rankBySize_untagged:
  assumes "\<forall>m \<in> set ms. tierPriority m = None"
  shows "rankBySize ms = sort_key sizeMB ms"
  unfolding rankBySize_def
proof (rule arraySort_sort_key)
  fix a b assume "a \<in> set ms" "b \<in> set ms"
  with assms have "tierPriority a = None" "tierPriority b = None" by auto
  then show "(compareModels a b \<le> 0) = (sizeMB a \<le> sizeMB b)"
    by (simp add: compareModels_def tierPriorityDiff_def)
qed

lemma catalogTier_untagged: "m \<in> set (catalogTier md c s t) \<Longrightarrow> tierPriority m = None"
  by (auto simp: catalogTier_def tierModels_def spreadModel_def split: option.splits)

lemma set_filterByAccuracy: "set (filtered (filterByAccuracy ms t)) \<subseteq> set ms"
  by (auto simp: filterByAccuracy_def Let_def)

lemma set_filterByDeployment:
  "filterByDeployment ms tgt = Inr r \<Longrightarrow> set (filtered r) \<subseteq> set ms"
  by (auto simp: filterByDeployment_def split: option.splits if_splits sum.splits
      dest!: filterThrowing_kept)

lemma grouped_tier_ranked:
  assumes "getTaskModelsGroupedByTier md c s thr tgt = Inr r" "tiers r t = Some g"
  shows "\<exists>d. filterByDeployment (filtered (filterByAccuracy (catalogTier md c s t) thr)) tgt = Inr d
           \<and> models g = sort_key sizeMB (filtered d)
           \<and> sorted (map sizeMB (models g))
           \<and> mset (models g) = mset (filtered d)
           \<and> hidden_count g
               = (length (catalogTier md c s t)
                    - length (filtered (filterByAccuracy (catalogTier md c s t) thr)))
               + (length (filtered (filterByAccuracy (catalogTier md c s t) thr))
                    - length (filtered d))"
proof -
  from grouped_pipeline [OF assms(1)] assms(2)
  have pipe: "tierPipeline (catalogTier md c s t) thr tgt = Inr g"
    by (auto dest: spec [of _ t])
  then obtain d where
    d: "filterByDeployment (filtered (filterByAccuracy (catalogTier md c s t) thr)) tgt = Inr d"
    and g: "g = \<lparr>models = rankBySize (filtered d),
        hidden_count = (length (catalogTier md c s t)
                    - length (filtered (filterByAccuracy (catalogTier md c s t) thr)))
               + (length (filtered (filterByAccuracy (catalogTier md c s t) thr))
                    - length (filtered d))\<rparr>"
    by (auto simp: tierPipeline_def Let_def split: sum.splits)
  have "\<forall>m \<in> set (filtered d). tierPriority m = None"
    using set_filterByDeployment [OF d] set_filterByAccuracy [of "catalogTier md c s t" thr]
    by (auto dest: catalogTier_untagged)
  then have "rankBySize (filtered d) = sort_key sizeMB (filtered d)"
    by (rule rankBySize_untagged)
  with d g show ?thesis by auto
qed

lemma getTaskModelsGroupedByTier_returns:
  assumes "\<And>t. tgt = Some t \<Longrightarrow> t \<notin> set inheritedKeys"
  shows "\<exists>r. getTaskModelsGroupedByTier md c s thr tgt = Inr r"
proof -
  have "\<exists>g. tierPipeline (catalogTier md c s t) thr tgt = Inr g" for t
    by (rule tierPipeline_returns) (rule assms)
  then show ?thesis by (simp add: grouped_returns_iff)
qed

text \<open>
  C1. The claim is that for every category, subcategory, accuracy threshold and
  deployment target the grouping filters each tier by accuracy, then by deployment,
  ranks the survivors and reports the hidden counts and the totals. For a target that
  names a property every object inherits the code does not: on the fixture of the
  scenario (one lightweight model with accuracy 0.77 and options browser and mobile,
  one standard model with accuracy 0.88 and option browser) the target constructor
  makes the call throw a TypeError, with threshold 85 and with the threshold 0 that the
  page passes, and no tier or total is reported. With the scenario's target browser the
  same call returns what the claim says, and so does the target mobile, which the table
  does not list either.
\<close>

theorem getTaskModelsGroupedByTier_inherited_target_throws:
  "getTaskModelsGroupedByTier twoModelFixture ''computer_vision'' ''image_classification''
      85 (Some ''constructor'') = Inl TypeError
   \<and> getTaskModelsGroupedByTier twoModelFixture ''computer_vision'' ''image_classification''
      0 (Some ''constructor'') = Inl TypeError
   \<and> (case getTaskModelsGroupedByTier twoModelFixture ''computer_vision''
              ''image_classification'' 85 (Some ''browser'') of
         Inl e \<Rightarrow> False
       | Inr r \<Rightarrow>
           tiers r lightweight = Some \<lparr>models = [], hidden_count = 1\<rparr>
           \<and> tiers r standard
               = Some \<lparr>models = [spreadModel standardBrowser standard None
                                   ''computer_vision'' ''image_classification''],
                       hidden_count = 0\<rparr>
           \<and> totalShown r = 1)
   \<and> (case getTaskModelsGroupedByTier twoModelFixture ''computer_vision''
              ''image_classification'' 85 (Some ''mobile'') of
         Inl e \<Rightarrow> False
       | Inr r \<Rightarrow>
           tiers r lightweight = Some \<lparr>models = [], hidden_count = 1\<rparr>
           \<and> tiers r standard = Some \<lparr>models = [], hidden_count = 1\<rparr>
           \<and> totalShown r = 0 \<and> totalHidden r = 2)"
  by (simp add: selector_defs twoModelFixture_def fixture_defs inheritedKeys_def
      jsDivide_85_100_compared)


text \<open>
  C7. For every category and subcategory with no catalog entries (the pair is missing, or
  every tier of it is missing or empty, so that \<open>getTaskModels\<close> returns nothing),
  \<open>getTaskModelsGroupedByTier\<close> returns, whatever the threshold and the target: all four
  tiers are present with an empty model list and hidden count 0, and both totals are 0.
\<close>

theorem getTaskModelsGroupedByTier_no_entries:
  assumes "getTaskModels md c s = []"
  shows "\<exists>r. getTaskModelsGroupedByTier md c s thr tgt = Inr r
           \<and> tiers r lightweight = Some \<lparr>models = [], hidden_count = 0\<rparr>
           \<and> tiers r standard = Some \<lparr>models = [], hidden_count = 0\<rparr>
           \<and> tiers r advanced = Some \<lparr>models = [], hidden_count = 0\<rparr>
           \<and> tiers r xlarge = Some \<lparr>models = [], hidden_count = 0\<rparr>
           \<and> totalHidden r = 0 \<and> totalShown r = 0"
proof -
  have pipe: "tierPipeline (catalogTier md c s t) thr tgt = Inr emptyGroup" for t
    by (simp add: getTaskModels_Nil_catalogTier [OF assms] tierPipeline_Nil)
  then obtain r where r: "getTaskModelsGroupedByTier md c s thr tgt = Inr r"
    using grouped_returns_iff [of md c s thr tgt] by auto
  from grouped_pipeline [OF r] pipe have tiers: "tiers r t = Some emptyGroup" for t
    by (auto dest: spec [of _ t])
  then have "hiddenIn r t = 0" "shownIn r t = 0" for t
    by (simp_all add: hiddenIn_def shownIn_def emptyGroup_def)
  with grouped_pipeline [OF r] have "totalHidden r = 0" "totalShown r = 0"
    by simp_all
  with r tiers show ?thesis by (simp add: emptyGroup_def)
qed

theorem getTaskModelsGroupedByTier_no_entries_witness:
  "getTaskModels mockModelsData ''computer_vision'' ''object_detection'' = []
   \<and> getTaskModelsGroupedByTier mockModelsData ''computer_vision'' ''object_detection''
        85 (Some ''constructor'') = Inr emptyGrouped
   \<and> getTaskModels [''speech'' \<mapsto> [''recognition'' \<mapsto> [lightweight \<mapsto> []]]]
        ''speech'' ''recognition'' = []
   \<and> (case getTaskModelsGroupedByTier [''speech'' \<mapsto> [''recognition'' \<mapsto> [lightweight \<mapsto> []]]]
             ''speech'' ''recognition'' 85 (Some ''constructor'') of
         Inl e \<Rightarrow> False
       | Inr r \<Rightarrow> tiers r xlarge = Some \<lparr>models = [], hidden_count = 0\<rparr> \<and> totalShown r = 0)"
proof -
  have h: "getTaskModels mockModelsData ''computer_vision'' ''object_detection'' = []"
    by (simp add: getTaskModels_def taskDataFor_def mockModelsData_def)
  have h2: "getTaskModels [''speech'' \<mapsto> [''recognition'' \<mapsto> [lightweight \<mapsto> []]]]
        ''speech'' ''recognition'' = []"
    by (simp add: getTaskModels_def taskDataFor_def tierList_def enumerate_TIERS)
  have e: "getTaskModelsGroupedByTier mockModelsData ''computer_vision'' ''object_detection''
        85 (Some ''constructor'') = Inr emptyGrouped"
    by (simp add: getTaskModelsGroupedByTier_def taskDataFor_def mockModelsData_def)
  from getTaskModelsGroupedByTier_no_entries [OF h2, of 85 "Some ''constructor''"] h h2 e
  show ?thesis by auto
qed

section \<open>The page: routing and pre-fill\<close>

lemma handleClassify_not_ready:
  assumes "\<not> classifierReady st"
  shows "\<exists>st'. handleClassify emb fb st d = Inr st'
           \<and> \<not> classifierReady st'
           \<and> invoked st' = invoked st @ [Fallback]
           \<and> handleClassify emb' fb st d = Inr st'"
proof (cases "fb d")
  case (Inl e)
  with assms show ?thesis
    by (simp add: handleClassify_def classifyAndPrefill_def Let_def)
next
  case (Inr result)
  with assms show ?thesis
    by (cases "topPrediction result")
      (simp_all add: handleClassify_def classifyAndPrefill_def Let_def)
qed

lemma pageStep_not_ready:
  assumes "\<not> classifierReady st" "ev \<noteq> Progress ready" "ev \<noteq> InitFinished InitSuccess"
  shows "\<exists>st'. pageStep emb fb st ev = Inr st'
           \<and> \<not> classifierReady st'
           \<and> invoked st' = invoked st @ (if isClassify ev then [Fallback] else [])
           \<and> pageStep emb' fb st ev = Inr st'"
proof (cases ev)
  case (Progress p)
  with assms show ?thesis by (cases p) simp_all
next
  case (InitFinished r)
  with assms show ?thesis by (cases r) simp_all
next
  case (Classify d)
  with handleClassify_not_ready [OF assms(1), of emb fb d emb'] show ?thesis by simp
qed

lemma runPage_not_ready:
  assumes "\<not> classifierReady st" "Progress ready \<notin> set evs"
    "InitFinished InitSuccess \<notin> set evs"
  shows "\<exists>st'. runPage emb fb st evs = Inr st'
           \<and> \<not> classifierReady st'
           \<and> invoked st' = invoked st @ replicate (length (filter isClassify evs)) Fallback
           \<and> runPage emb' fb st evs = Inr st'"
  using assms
proof (induction evs arbitrary: st)
  case Nil
  then show ?case by simp
next
  case (Cons ev evs)
  from Cons.prems have ev: "ev \<noteq> Progress ready" "ev \<noteq> InitFinished InitSuccess"
    and evs: "Progress ready \<notin> set evs" "InitFinished InitSuccess \<notin> set evs"
    by auto
  from pageStep_not_ready [OF Cons.prems(1) ev, of emb fb emb'] obtain st1 where
    st1: "pageStep emb fb st ev = Inr st1" "\<not> classifierReady st1"
      "invoked st1 = invoked st @ (if isClassify ev then [Fallback] else [])"
      "pageStep emb' fb st ev = Inr st1"
    by blast
  from Cons.IH [OF st1(2) evs] obtain st' where
    st': "runPage emb fb st1 evs = Inr st'" "\<not> classifierReady st'"
      "invoked st' = invoked st1 @ replicate (length (filter isClassify evs)) Fallback"
      "runPage emb' fb st1 evs = Inr st'"
    by blast
  from st1 st' show ?case
    by (simp add: replicate_app_Cons_same)
qed

text \<open>
  C6. When the embedding classifier has not become ready and never does (no progress
  report \<open>ready\<close>, no successful end of its initialisation: the initialisation ends in
  error or not at all), then whatever else happens, every classification call of the
  session returns without throwing and is routed to the fallback classifier; the
  embedding classifier is never invoked, so the outcome is the same for any embedding
  classifier. This holds whether the fallback classifier answers or throws.
\<close>

theorem never_ready_routes_to_fallback:
  assumes "\<not> classifierReady st"
      and "Progress ready \<notin> set evs"
      and "InitFinished InitSuccess \<notin> set evs"
  shows "\<exists>st'. runPage emb fb st evs = Inr st'
           \<and> invoked st' = invoked st @ replicate (length (filter isClassify evs)) Fallback
           \<and> (\<forall>emb'. runPage emb' fb st evs = Inr st')"
proof -
  from runPage_not_ready [OF assms, of emb fb emb] obtain st' where
    st': "runPage emb fb st evs = Inr st'"
      "invoked st' = invoked st @ replicate (length (filter isClassify evs)) Fallback"
    by blast
  have "runPage emb' fb st evs = Inr st'" for emb'
    using runPage_not_ready [OF assms, of emb fb emb'] st'(1) by auto
  with st' show ?thesis by blast
qed

theorem never_ready_routes_to_fallback_witness:
  "\<not> classifierReady initialPage
   \<and> runPage lowConfidenceClassifier keywordClassifier initialPage
        [Progress downloading, Progress error, InitFinished InitFailure,
         Classify ''classify product images'', Classify ''translate my documents'']
      = Inr \<lparr>usingFallback = True, classifierReady = False, isModelLoading = False,
             prefillCategory = Some ''natural_language_processing'',
             prefillSubcategory = None, prefillConfidence = 9 / 10,
             errorMessage = None, invoked = [Fallback, Fallback]\<rparr>
   \<and> runPage lowConfidenceClassifier throwingClassifier initialPage
        [Progress downloading, InitFinished InitThrows, Classify ''classify product images'']
      = Inr \<lparr>usingFallback = False, classifierReady = False, isModelLoading = True,
             prefillCategory = None, prefillSubcategory = None, prefillConfidence = 0,
             errorMessage =
               Some ''Failed to initialize the AI model advisor. Please refresh the page.'',
             invoked = [Fallback]\<rparr>"
proof -
  have h: "\<not> classifierReady initialPage" by (simp add: initialPage_def)
  have "\<exists>st'. runPage lowConfidenceClassifier keywordClassifier initialPage
        [Progress downloading, Progress error, InitFinished InitFailure,
         Classify ''classify product images'', Classify ''translate my documents''] = Inr st'
      \<and> invoked st' = invoked initialPage @ [Fallback, Fallback]"
    using never_ready_routes_to_fallback [OF h, of
        "[Progress downloading, Progress error, InitFinished InitFailure,
          Classify ''classify product images'', Classify ''translate my documents'']"
        lowConfidenceClassifier keywordClassifier]
    by auto
  then show ?thesis
    by (simp add: initialPage_def handleClassify_def classifyAndPrefill_def Let_def
        keywordClassifier_def throwingClassifier_def topPrediction_def firstOf_def
        truthy_def orNull_def orZero_def)
qed

text \<open>
  C5, as amended. For every classification result that has a top prediction with a
  category, whatever its confidence, \<open>handleClassify\<close> takes the label over: the pre-fill
  category and subcategory are those of the top prediction and the pre-fill confidence
  is the result's confidence (0 when it has none). No threshold and no count of votes is
  applied, and the page has no state for asking back: the flags that route the next
  call are unchanged.
\<close>

theorem handleClassify_accepts_top_prediction:
  assumes "(if \<not> usingFallback st \<and> classifierReady st then emb d else fb d) = Inr result"
      and "topPrediction result = Some p"
      and "truthy (pcategory p)"
  shows "\<exists>st'. handleClassify emb fb st d = Inr st'
           \<and> prefillCategory st' = pcategory p
           \<and> prefillSubcategory st' = orNull (psubcategory p)
           \<and> prefillConfidence st' = orZero (confidence result)
           \<and> usingFallback st' = usingFallback st
           \<and> classifierReady st' = classifierReady st
           \<and> errorMessage st' = errorMessage st"
proof (cases "usingFallback st")
  case True
  with assms have "fb d = Inr result" by simp
  with True assms(2,3) show ?thesis
    by (simp add: handleClassify_def classifyAndPrefill_def Let_def)
next
  case False
  show ?thesis
  proof (cases "classifierReady st")
    case True
    with False assms have "emb d = Inr result" by simp
    with False True assms(2,3) show ?thesis
      by (simp add: handleClassify_def classifyAndPrefill_def Let_def)
  next
    case notReady: False
    with False assms have "fb d = Inr result" by simp
    with False notReady assms(2,3) show ?thesis
      by (simp add: handleClassify_def classifyAndPrefill_def Let_def)
  qed
qed

theorem handleClassify_accepts_top_prediction_witness:
  "topPrediction lowConfidenceResult
     = Some \<lparr>pcategory = Some ''computer_vision'', psubcategory = Some ''image_classification''\<rparr>
   \<and> truthy (Some ''computer_vision'')
   \<and> handleClassify lowConfidenceClassifier keywordClassifier
        (initialPage\<lparr>classifierReady := True\<rparr>) ''classify product images''
      = Inr \<lparr>usingFallback = False, classifierReady = True, isModelLoading = False,
             prefillCategory = Some ''computer_vision'',
             prefillSubcategory = Some ''image_classification'', prefillConfidence = 1 / 2,
             errorMessage = None, invoked = [Embedding]\<rparr>"
proof -
  have top: "topPrediction lowConfidenceResult
     = Some \<lparr>pcategory = Some ''computer_vision'', psubcategory = Some ''image_classification''\<rparr>"
    by (simp add: topPrediction_def firstOf_def lowConfidenceResult_def)
  have tr: "truthy (pcategory \<lparr>pcategory = Some ''computer_vision'',
      psubcategory = Some ''image_classification''\<rparr>)"
    by (simp add: truthy_def)
  have call: "(if \<not> usingFallback (initialPage\<lparr>classifierReady := True\<rparr>)
         \<and> classifierReady (initialPage\<lparr>classifierReady := True\<rparr>)
       then lowConfidenceClassifier ''classify product images''
       else keywordClassifier ''classify product images'') = Inr lowConfidenceResult"
    by (simp add: initialPage_def lowConfidenceClassifier_def)
  from handleClassify_accepts_top_prediction
    [where st = "initialPage\<lparr>classifierReady := True\<rparr>" and emb = lowConfidenceClassifier
       and fb = keywordClassifier and d = "''classify product images''", OF call top tr]
  have "\<exists>st'. handleClassify lowConfidenceClassifier keywordClassifier
        (initialPage\<lparr>classifierReady := True\<rparr>) ''classify product images'' = Inr st'
      \<and> prefillCategory st' = Some ''computer_vision''"
    by auto
  with top show ?thesis
    by (simp add: initialPage_def handleClassify_def classifyAndPrefill_def Let_def
        lowConfidenceClassifier_def lowConfidenceResult_def topPrediction_def firstOf_def
        truthy_def orNull_def orZero_def)
qed

text \<open>The claim as it was stated fails: with the embedding classifier ready, a result of
  confidence 0.5, below 0.70, is taken over as the prediction, and nothing else
  changes.\<close>

theorem low_confidence_accepted_counterexample:
  "confidence lowConfidenceResult = Some (1 / 2) \<and> (1 / 2 :: rat) < 7 / 10
   \<and> runPage lowConfidenceClassifier keywordClassifier initialPage
        [Progress ready, InitFinished InitSuccess, Classify ''classify product images'']
      = Inr \<lparr>usingFallback = False, classifierReady = True, isModelLoading = False,
             prefillCategory = Some ''computer_vision'',
             prefillSubcategory = Some ''image_classification'', prefillConfidence = 1 / 2,
             errorMessage = None, invoked = [Embedding]\<rparr>"
  by (simp add: initialPage_def handleClassify_def classifyAndPrefill_def Let_def
      lowConfidenceClassifier_def lowConfidenceResult_def topPrediction_def firstOf_def
      truthy_def orNull_def orZero_def)

end
